theory Spec2Isabelle
  imports Main "HOL-Library.Word" "HOL-Library.Product_Lexorder" "HOL-Library.Multiset"
begin

unbundle bit_operations_syntax

section \<open>JavaScript values\<close>

text \<open>
  The six scripts of the repository (two in \<open>injector.js\<close>, two in \<open>part_000\<close>, one in
  \<open>part_001\<close>, one in \<open>part_003\<close>) are variants of one job.  They are named here after
  their transport and the version string they write into \<open>additional_data\<close>.
\<close>

datatype variant =
    CliFlag       \<comment> \<open>\<open>injector.js\<close> lines 1-425, version 4.0\<close>
  | CliSingle     \<comment> \<open>\<open>injector.js\<close> lines 426-805, version 3.0\<close>
  | ApiV5         \<comment> \<open>\<open>part_000\<close> lines 1-417, version 5.0\<close>
  | ApiFlag       \<comment> \<open>\<open>part_000\<close> lines 418-825, version 3.1\<close>
  | DirectInsert  \<comment> \<open>\<open>part_001\<close>, version 7.0\<close>
  | CliQueue      \<comment> \<open>\<open>part_003\<close>, version 3.1\<close>

text \<open>
  The values the scripts handle.  \<open>JNative\<close> is a built-in function or object reached
  through the prototype chain (it is truthy and is no string).
\<close>

datatype jsval =
    JUndefined
  | JNull
  | JBool bool
  | JNum int
  | JStr string
  | JArr "jsval list"
  | JObj "(string \<times> jsval) list"
  | JNative string

fun truthy :: "jsval \<Rightarrow> bool" where
  "truthy JUndefined = False"
| "truthy JNull = False"
| "truthy (JBool b) = b"
| "truthy (JNum n) = (n \<noteq> 0)"
| "truthy (JStr s) = (s \<noteq> [])"
| "truthy (JArr vs) = True"
| "truthy (JObj kvs) = True"
| "truthy (JNative n) = True"

text \<open>A nullable text column, as the database client returns it: \<open>None\<close> is \<open>null\<close>.\<close>

definition present :: "string option \<Rightarrow> bool" where
  \<comment> \<open>truthiness of a nullable string: \<open>!x\<close> is \<open>\<not> present x\<close>\<close>
  "present x = (case x of None \<Rightarrow> False | Some s \<Rightarrow> s \<noteq> [])"

definition or_default :: "string option \<Rightarrow> string \<Rightarrow> string" where
  \<comment> \<open>\<open>x || d\<close> on a nullable string\<close>
  "or_default x d = (case x of None \<Rightarrow> d | Some s \<Rightarrow> if s = [] then d else s)"

definition to_js :: "string option \<Rightarrow> jsval" where
  "to_js x = (case x of None \<Rightarrow> JNull | Some s \<Rightarrow> JStr s)"

text \<open>
  Every object literal inherits from \<open>Object.prototype\<close>: a property read that finds no
  own property continues there.
\<close>

definition object_prototype :: "(string \<times> jsval) list" where
  "object_prototype =
     [(''constructor'', JNative ''Object''),
      (''__defineGetter__'', JNative ''__defineGetter__''),
      (''__defineSetter__'', JNative ''__defineSetter__''),
      (''hasOwnProperty'', JNative ''hasOwnProperty''),
      (''__lookupGetter__'', JNative ''__lookupGetter__''),
      (''__lookupSetter__'', JNative ''__lookupSetter__''),
      (''isPrototypeOf'', JNative ''isPrototypeOf''),
      (''propertyIsEnumerable'', JNative ''propertyIsEnumerable''),
      (''toString'', JNative ''toString''),
      (''valueOf'', JNative ''valueOf''),
      (''__proto__'', JNative ''Object.prototype''),
      (''toLocaleString'', JNative ''toLocaleString'')]"

definition get_prop :: "(string \<times> jsval) list \<Rightarrow> string \<Rightarrow> jsval" where
  \<comment> \<open>\<open>obj[key]\<close> on an object literal with the given own properties\<close>
  "get_prop kvs k =
     (case map_of kvs k of
        Some v \<Rightarrow> v
      | None \<Rightarrow> (case map_of object_prototype k of Some v \<Rightarrow> v | None \<Rightarrow> JUndefined))"

fun field :: "jsval \<Rightarrow> string \<Rightarrow> jsval" where
  \<comment> \<open>reading a property of a value that is known to be an object\<close>
  "field (JObj kvs) k = get_prop kvs k"
| "field v k = JUndefined"

section \<open>Strings\<close>

definition toUpperCase_char :: "char \<Rightarrow> char" where
  \<comment> \<open>on the ASCII letters; every key the lookup below accepts is ASCII\<close>
  "toUpperCase_char c =
     (let n = (of_char c :: nat)
      in if 97 \<le> n \<and> n \<le> 122 then char_of (n - 32) else c)"

fun capitalize :: "string \<Rightarrow> string" where
  \<comment> \<open>\<open>s.charAt(0).toUpperCase() + s.slice(1)\<close>\<close>
  "capitalize [] = []"
| "capitalize (c # cs) = toUpperCase_char c # cs"

fun replace_first :: "char \<Rightarrow> char \<Rightarrow> string \<Rightarrow> string" where
  \<comment> \<open>\<open>s.replace(a, b)\<close> with one-character strings: the first occurrence only\<close>
  "replace_first a b [] = []"
| "replace_first a b (c # cs) = (if c = a then b # cs else c # replace_first a b cs)"

definition minute_stamp :: "string \<Rightarrow> string" where
  \<comment> \<open>\<open>now.slice(0, 16).replace('T', ' ')\<close>, \<open>now\<close> being \<open>new Date().toISOString()\<close>\<close>
  "minute_stamp now = replace_first (CHR ''T'') (CHR '' '') (take 16 now)"

section \<open>Credential records\<close>

text \<open>
  The object the fetch functions hand to the loop.  Its fields are nullable as in the
  script: the flag-based variants fill them from a validated row, the queue variant
  passes the row on as it is.
\<close>

record cred =
  c_user_id :: string
  c_provider :: string
  c_token_source :: "string option"
  c_access_token :: "string option"
  c_refresh_token :: "string option"
  c_client_id :: "string option"
  c_client_secret :: "string option"
  c_requested_at :: "nat option"

section \<open>Payload Builder\<close>

definition credentialTypes :: "(string \<times> jsval) list" where
  "credentialTypes =
     [(''google'', JStr ''googleOAuth2Api''),
      (''spotify'', JStr ''spotifyOAuth2Api''),
      (''github'', JStr ''githubOAuth2Api''),
      (''discord'', JStr ''discordOAuth2Api''),
      (''linkedin'', JStr ''linkedInOAuth2Api'')]"

definition lookupCredentialType :: "string \<Rightarrow> string + jsval" where
  \<comment> \<open>\<open>const credentialType = credentialTypes[credData.provider];
      if (!credentialType) throw new Error(`Unsupported provider: ${credData.provider}`)\<close>\<close>
  "lookupCredentialType p =
     (let credentialType = get_prop credentialTypes p
      in if \<not> truthy credentialType then Inl (''Unsupported provider: '' @ p)
         else Inr credentialType)"

definition credentialName :: "string \<Rightarrow> string \<Rightarrow> string" where
  "credentialName p now = capitalize p @ '' OAuth2 - '' @ minute_stamp now"

definition oauthData :: "cred \<Rightarrow> jsval \<Rightarrow> (string \<times> jsval) list" where
  \<comment> \<open>the \<open>data\<close> object literal shared by the variants; \<open>rt\<close> is its \<open>refreshToken\<close>\<close>
  "oauthData c rt =
     [(''clientId'', to_js (c_client_id c)),
      (''clientSecret'', to_js (c_client_secret c)),
      (''accessToken'', to_js (c_access_token c)),
      (''refreshToken'', rt),
      (''tokenType'', JStr ''Bearer''),
      (''grantType'', JStr ''authorizationCode'')]"

definition createCredentialTemplate_flag :: "string \<Rightarrow> string \<Rightarrow> cred \<Rightarrow> string + jsval" where
  \<comment> \<open>\<open>injector.js\<close> 229-260; \<open>uuid\<close> is \<open>crypto.randomUUID()\<close>\<close>
  "createCredentialTemplate_flag uuid now c =
     (case lookupCredentialType (c_provider c) of
        Inl e \<Rightarrow> Inl e
      | Inr credentialType \<Rightarrow>
          Inr (JObj [(''id'', JStr uuid),
                     (''name'', JStr (credentialName (c_provider c) now)),
                     (''type'', credentialType),
                     (''data'', JObj (oauthData c (to_js (c_refresh_token c))))]))"

definition createCredentialTemplate_single :: "string \<Rightarrow> string \<Rightarrow> cred \<Rightarrow> string + jsval" where
  \<comment> \<open>\<open>injector.js\<close> 613-645\<close>
  "createCredentialTemplate_single uuid now c =
     (case lookupCredentialType (c_provider c) of
        Inl e \<Rightarrow> Inl e
      | Inr credentialType \<Rightarrow>
          Inr (JObj [(''id'', JStr uuid),
                     (''name'', JStr (credentialName (c_provider c) now)),
                     (''type'', credentialType),
                     (''data'', JObj (oauthData c (to_js (c_refresh_token c)))),
                     (''createdAt'', JStr now),
                     (''updatedAt'', JStr now)]))"

definition createCredentialTemplate_queue :: "string \<Rightarrow> string \<Rightarrow> cred \<Rightarrow> string + jsval" where
  \<comment> \<open>\<open>part_003\<close> 183-215: \<open>refreshToken: credData.refresh_token || ''\<close>\<close>
  "createCredentialTemplate_queue uuid now c =
     (case lookupCredentialType (c_provider c) of
        Inl e \<Rightarrow> Inl e
      | Inr credentialType \<Rightarrow>
          Inr (JObj [(''id'', JStr uuid),
                     (''name'', JStr (credentialName (c_provider c) now)),
                     (''type'', credentialType),
                     (''data'', JObj (oauthData c (JStr (or_default (c_refresh_token c) [])))),
                     (''createdAt'', JStr now),
                     (''updatedAt'', JStr now)]))"

definition createCredentialPayload :: "string \<Rightarrow> cred \<Rightarrow> string + jsval" where
  \<comment> \<open>\<open>part_000\<close> 263-292 and 672-700 (the same text)\<close>
  "createCredentialPayload now c =
     (case lookupCredentialType (c_provider c) of
        Inl e \<Rightarrow> Inl e
      | Inr credentialType \<Rightarrow>
          Inr (JObj [(''name'', JStr (credentialName (c_provider c) now)),
                     (''type'', credentialType),
                     (''data'', JObj (oauthData c (to_js (c_refresh_token c))))]))"

definition credentialDataObject :: "cred \<Rightarrow> (string \<times> jsval) list" where
  \<comment> \<open>\<open>part_001\<close> 391-403: the object the direct-insert variant encrypts\<close>
  "credentialDataObject c =
     oauthData c (to_js (c_refresh_token c)) @
     [(''oauthTokenData'',
        JObj [(''access_token'', to_js (c_access_token c)),
              (''refresh_token'', to_js (c_refresh_token c)),
              (''token_type'', JStr ''Bearer'')])]"

section \<open>JSON text\<close>

text \<open>
  The text \<open>JSON.stringify\<close> returns is represented by the value it was made from;
  \<open>JSON.parse\<close> gives back what the text holds, which is the value without the
  properties that \<open>stringify\<close> leaves out (those holding \<open>undefined\<close> or a function).
\<close>

datatype json_text = JSON_stringify jsval

fun serialisable :: "jsval \<Rightarrow> bool" where
  "serialisable JUndefined = False"
| "serialisable (JNative n) = False"
| "serialisable v = True"

fun json_normal :: "jsval \<Rightarrow> jsval" where
  "json_normal (JObj kvs) =
     JObj (map (\<lambda>kv. (fst kv, json_normal (snd kv))) (filter (\<lambda>kv. serialisable (snd kv)) kvs))"
| "json_normal (JArr vs) =
     JArr (map (\<lambda>v. if serialisable v then json_normal v else JNull) vs)"
| "json_normal v = v"

fun JSON_parse :: "json_text \<Rightarrow> jsval" where
  "JSON_parse (JSON_stringify v) = json_normal v"

section \<open>The shared credential store\<close>

record row =
  user_id :: string
  provider :: string
  token_source :: "string option"
  access_token :: "string option"
  refresh_token :: "string option"
  client_id :: "string option"
  client_secret :: "string option"
  injection_requested :: bool
  injected_to_n8n :: bool
  injection_requested_at :: "nat option"
  created_at :: "nat option"
  injection_error :: "string option"
  injection_attempted_at :: "string option"
  injected_at :: "string option"
  n8n_credential_id :: "jsval option"
  n8n_credential_ids :: "json_text option"
  additional_data :: "json_text option"
  updated_at :: "string option"

definition pending :: "row \<Rightarrow> bool" where
  \<comment> \<open>the pending state of the flag-based variants\<close>
  "pending r = (injection_requested r \<and> \<not> injected_to_n8n r)"

text \<open>
  The object passed to \<open>.update(...)\<close>.  A column that the object does not mention is
  \<open>None\<close> here and keeps its value in the row.
\<close>

record update_data =
  u_injected_to_n8n :: bool
  u_injected_at :: "string option"
  u_injection_error :: "string option"
  u_injection_attempted_at :: string
  u_injection_requested :: "bool option"
  u_additional_data :: json_text
  u_updated_at :: string
  u_n8n_credential_id :: "jsval option"
  u_n8n_credential_ids :: "json_text option"

definition apply_update :: "update_data \<Rightarrow> row \<Rightarrow> row" where
  "apply_update u r =
     r\<lparr> injected_to_n8n := u_injected_to_n8n u,
        injected_at := u_injected_at u,
        injection_error := u_injection_error u,
        injection_attempted_at := Some (u_injection_attempted_at u),
        injection_requested :=
          (case u_injection_requested u of None \<Rightarrow> injection_requested r | Some b \<Rightarrow> b),
        additional_data := Some (u_additional_data u),
        updated_at := Some (u_updated_at u),
        n8n_credential_id :=
          (case u_n8n_credential_id u of None \<Rightarrow> n8n_credential_id r | Some i \<Rightarrow> Some i),
        n8n_credential_ids :=
          (case u_n8n_credential_ids u of None \<Rightarrow> n8n_credential_ids r | Some i \<Rightarrow> Some i) \<rparr>"

text \<open>
  The filters of an update: \<open>.eq('user_id', u).eq('provider', p)\<close> and, where the script
  adds it, \<open>.eq('token_source', t)\<close>.  An \<open>eq\<close> filter never matches a \<open>NULL\<close> column; a
  \<open>null\<close> argument is sent as the text \<open>null\<close>.
\<close>

record where_clause =
  w_user_id :: string
  w_provider :: string
  w_token_source :: "string option option"

definition eq_text :: "string option \<Rightarrow> string option \<Rightarrow> bool" where
  "eq_text arg col = (col = Some (case arg of None \<Rightarrow> ''null'' | Some s \<Rightarrow> s))"

definition matches :: "where_clause \<Rightarrow> row \<Rightarrow> bool" where
  "matches w r =
     (user_id r = w_user_id w \<and> provider r = w_provider w \<and>
      (case w_token_source w of None \<Rightarrow> True | Some arg \<Rightarrow> eq_text arg (token_source r)))"

definition db_update :: "where_clause \<Rightarrow> update_data \<Rightarrow> row list \<Rightarrow> row list" where
  "db_update w u table = map (\<lambda>r. if matches w r then apply_update u r else r) table"

text \<open>What the store answers to an update: success, or an error object with a message.\<close>

datatype db_outcome = DbOk | DbError string

section \<open>Write-back\<close>

fun injection_method :: "variant \<Rightarrow> string" where
  "injection_method CliFlag = ''flag_based_northflank_n8n_cli''"
| "injection_method CliSingle = ''northflank_n8n_cli''"
| "injection_method ApiV5 = ''flag_based_n8n_api''"
| "injection_method ApiFlag = ''northflank_n8n_api_flag_based''"
| "injection_method DirectInsert = ''direct_database_insert_with_diagnostics''"
| "injection_method CliQueue = ''northflank_n8n_cli_queue''"

fun version :: "variant \<Rightarrow> string" where
  "version CliFlag = ''4.0''"
| "version CliSingle = ''3.0''"
| "version ApiV5 = ''5.0''"
| "version ApiFlag = ''3.1''"
| "version DirectInsert = ''7.0''"
| "version CliQueue = ''3.1''"

fun resets_flag :: "variant \<Rightarrow> bool" where
  \<comment> \<open>whether \<open>updateData\<close> has the line \<open>injection_requested: false\<close>\<close>
  "resets_flag CliFlag = True"
| "resets_flag CliSingle = False"
| "resets_flag ApiV5 = True"
| "resets_flag ApiFlag = True"
| "resets_flag DirectInsert = True"
| "resets_flag CliQueue = False"

definition updateData :: "variant \<Rightarrow> string \<Rightarrow> bool \<Rightarrow> jsval \<Rightarrow> string \<Rightarrow> jsval \<Rightarrow> update_data" where
  \<comment> \<open>the object \<open>updateCredentialStatus\<close> builds, with the two keys it adds
      \<open>if (credentialId)\<close>; \<open>now\<close> is \<open>new Date().toISOString()\<close>\<close>
  "updateData v now success credentialId message details =
     \<lparr> u_injected_to_n8n = success,
       u_injected_at = (if success then Some now else None),
       u_injection_error = (if success then None else Some message),
       u_injection_attempted_at = now,
       u_injection_requested = (if resets_flag v then Some False else None),
       u_additional_data =
         JSON_stringify (JObj (
           [(''injection_method'', JStr (injection_method v)),
            (''success'', JBool success),
            (''error'', if success then JNull else JStr message),
            (''details'', if truthy details then details else JObj []),
            (''timestamp'', JStr now)] @
           (if v = DirectInsert then [] else [(''platform'', JStr ''northflank'')]) @
           [(''version'', JStr (version v))])),
       u_updated_at = now,
       u_n8n_credential_id = (if truthy credentialId then Some credentialId else None),
       u_n8n_credential_ids =
         (if truthy credentialId then Some (JSON_stringify (JArr [credentialId])) else None) \<rparr>"

definition whereClause :: "variant \<Rightarrow> string \<Rightarrow> string \<Rightarrow> string option \<Rightarrow> where_clause" where
  \<comment> \<open>the single-record variant has no \<open>tokenSource\<close> parameter; the queue variant
      filters on it \<open>if (tokenSource)\<close>\<close>
  "whereClause v userId prov tokenSource =
     \<lparr> w_user_id = userId, w_provider = prov,
       w_token_source =
         (if v = CliSingle then None
          else if v = CliQueue then (if present tokenSource then Some tokenSource else None)
          else Some tokenSource) \<rparr>"

definition update_failed :: "variant \<Rightarrow> string \<Rightarrow> string" where
  "update_failed v m =
     (if v = DirectInsert then ''Supabase update failed: '' else ''Database update failed: '') @ m"

definition updateCredentialStatus ::
  "variant \<Rightarrow> string \<Rightarrow> db_outcome \<Rightarrow> string \<Rightarrow> string \<Rightarrow> string option \<Rightarrow>
   bool \<Rightarrow> jsval \<Rightarrow> string \<Rightarrow> jsval \<Rightarrow> row list \<Rightarrow> string + row list" where
  \<comment> \<open>\<open>Inl\<close> is the error the function throws; \<open>answer\<close> is what the store replies\<close>
  "updateCredentialStatus v now answer userId prov tokenSource success credentialId message details table =
     (case answer of
        DbError m \<Rightarrow> Inl (update_failed v m)
      | DbOk \<Rightarrow>
          Inr (db_update (whereClause v userId prov tokenSource)
                 (updateData v now success credentialId message details) table))"

section \<open>Injection Transport\<close>

text \<open>
  An asynchronous call of the script either returns a value or throws.  Its outcome is
  a value of a sum type: \<open>Inl m\<close> is a thrown error whose \<open>message\<close> is \<open>m\<close> (the empty
  text when it has none), \<open>Inr x\<close> is the value returned.
\<close>

record result =
  success :: bool
  credentialId :: jsval
  message :: string
  details :: jsval

definition or_message :: "string \<Rightarrow> string \<Rightarrow> string" where
  \<comment> \<open>\<open>error.message || fallback\<close>\<close>
  "or_message m fallback = (if m = [] then fallback else m)"

fun read_prop :: "jsval \<Rightarrow> string \<Rightarrow> string + jsval" where
  \<comment> \<open>\<open>v[k]\<close> for the keys the scripts read (\<open>0\<close>, \<open>id\<close>, \<open>data\<close>, \<open>name\<close>, \<open>type\<close>,
      \<open>credentials\<close>): it throws a TypeError on \<open>undefined\<close> and \<open>null\<close>\<close>
  "read_prop JUndefined k = Inl (''Cannot read properties of undefined (reading '' @ k @ '')'')"
| "read_prop JNull k = Inl (''Cannot read properties of null (reading '' @ k @ '')'')"
| "read_prop (JObj kvs) k = Inr (get_prop kvs k)"
| "read_prop (JArr vs) k =
     Inr (if k = ''0'' then (case vs of [] \<Rightarrow> JUndefined | x # xs \<Rightarrow> x) else JUndefined)"
| "read_prop (JStr s) k =
     Inr (if k = ''0'' then (case s of [] \<Rightarrow> JUndefined | c # cs \<Rightarrow> JStr [c]) else JUndefined)"
| "read_prop v k = Inr JUndefined"

definition toLowerCase_char :: "char \<Rightarrow> char" where
  \<comment> \<open>on the ASCII letters\<close>
  "toLowerCase_char c =
     (let n = (of_char c :: nat)
      in if 65 \<le> n \<and> n \<le> 90 then char_of (n + 32) else c)"

definition toLowerCase :: "string \<Rightarrow> string" where
  "toLowerCase s = map toLowerCase_char s"

fun starts_with :: "string \<Rightarrow> string \<Rightarrow> bool" where
  "starts_with s [] = True"
| "starts_with [] (p # ps) = False"
| "starts_with (c # cs) (p # ps) = (c = p \<and> starts_with cs ps)"

fun includes_str :: "string \<Rightarrow> string \<Rightarrow> bool" where
  \<comment> \<open>\<open>s.includes(t)\<close>\<close>
  "includes_str [] t = (t = [])"
| "includes_str (c # cs) t = (starts_with (c # cs) t \<or> includes_str cs t)"

subsection \<open>The CLI transport\<close>

definition successIndicators :: "string list" where
  "successIndicators = [''Successfully imported'', ''imported'', ''credential'', ''Saved credential'']"

definition isSuccess :: "string \<Rightarrow> bool" where
  \<comment> \<open>\<open>successIndicators.some(indicator =>
        stdout.toLowerCase().includes(indicator.toLowerCase()))\<close>\<close>
  "isSuccess stdout =
     list_ex (\<lambda>indicator. includes_str (toLowerCase stdout) (toLowerCase indicator)) successIndicators"

definition generateCredentialJSON :: "variant \<Rightarrow> jsval list \<Rightarrow> json_text" where
  \<comment> \<open>the flag-based script writes the bare array, the two older ones an envelope\<close>
  "generateCredentialJSON v credentials =
     (if v = CliFlag then JSON_stringify (JArr credentials)
      else JSON_stringify (JObj [(''version'', JStr ''1.0.0''),
                                 (''credentials'', JArr credentials),
                                 (''workflows'', JArr [])]))"

definition firstCredentialId :: "variant \<Rightarrow> json_text \<Rightarrow> string + jsval" where
  \<comment> \<open>\<open>JSON.parse(jsonContent)[0].id\<close>, or \<open>JSON.parse(jsonContent).credentials[0].id\<close>\<close>
  "firstCredentialId v jsonContent =
     (if v = CliFlag then
        (case read_prop (JSON_parse jsonContent) ''0'' of
           Inl e \<Rightarrow> Inl e
         | Inr c \<Rightarrow> read_prop c ''id'')
      else
        (case read_prop (JSON_parse jsonContent) ''credentials'' of
           Inl e \<Rightarrow> Inl e
         | Inr cs \<Rightarrow>
             (case read_prop cs ''0'' of
                Inl e \<Rightarrow> Inl e
              | Inr c \<Rightarrow> read_prop c ''id'')))"

text \<open>
  What the outside world does during one import: writing the temporary file, running
  \<open>n8n import:credentials\<close> (the promisified \<open>exec\<close> throws on a non-zero exit status and
  on the two-minute timeout, and returns \<open>stdout\<close> and \<open>stderr\<close> otherwise), and
  deleting the file.
\<close>

record cli_world =
  writeFile :: "string + unit"
  execAsync :: "string + (string \<times> string)"
  unlink :: "string + unit"

definition cli_details :: "variant \<Rightarrow> string \<Rightarrow> cred \<Rightarrow> jsval" where
  "cli_details v stdout c =
     JObj ([(''method'',
              JStr (if v = CliFlag then ''flag_based_northflank_n8n_cli''
                    else if v = CliSingle then ''northflank_n8n_cli''
                    else ''northflank_n8n_cli_queue'')),
            (''output'', JStr (take 500 stdout)),
            (''provider'', JStr (c_provider c)),
            (''tokenSource'', to_js (c_token_source c))] @
           (if v = CliFlag then [(''user_id'', JStr (c_user_id c))] else []))"

definition cli_error_details :: "variant \<Rightarrow> string \<Rightarrow> cred \<Rightarrow> jsval" where
  "cli_error_details v now c =
     JObj ([(''error_type'', JStr ''cli_execution_error''), (''timestamp'', JStr now)] @
           (if v = CliFlag
            then [(''user_id'', JStr (c_user_id c)), (''provider'', JStr (c_provider c))]
            else []))"

definition executeN8NImport_try :: "variant \<Rightarrow> cli_world \<Rightarrow> json_text \<Rightarrow> cred \<Rightarrow> string + result" where
  \<comment> \<open>the \<open>try\<close> block\<close>
  "executeN8NImport_try v w jsonContent c =
     (case writeFile w of
        Inl e \<Rightarrow> Inl e
      | Inr u \<Rightarrow>
          (case execAsync w of
             Inl e \<Rightarrow> Inl e
           | Inr (stdout, stderr) \<Rightarrow>
               if isSuccess stdout then
                 (case firstCredentialId v jsonContent of
                    Inl e \<Rightarrow> Inl e
                  | Inr cid \<Rightarrow>
                      Inr \<lparr> success = True, credentialId = cid,
                            message =
                              (if v = CliFlag
                               then ''Credentials imported successfully via N8N CLI (flag-based)''
                               else ''Credentials imported successfully via N8N CLI''),
                            details = cli_details v stdout c \<rparr>)
               else Inl (''Import failed - no success indicators found in output: '' @ stdout)))"

definition executeN8NImport :: "variant \<Rightarrow> string \<Rightarrow> cli_world \<Rightarrow> json_text \<Rightarrow> cred \<Rightarrow> string + result" where
  \<comment> \<open>\<open>try\<close>, \<open>catch\<close> and \<open>finally\<close>: the \<open>finally\<close> block catches what \<open>unlink\<close> throws,
      so the outcome of \<open>unlink\<close> does not reach the result.  The file name is computed
      before the \<open>try\<close>, from \<open>Date.now()\<close> and (flag-based script) the first eight
      characters of \<open>user_id\<close>, a string.\<close>
  "executeN8NImport v now w jsonContent c =
     (case executeN8NImport_try v w jsonContent c of
        Inr r \<Rightarrow> Inr r
      | Inl e \<Rightarrow>
          Inr \<lparr> success = False, credentialId = JUndefined,
                message = or_message e ''N8N CLI execution failed'',
                details = cli_error_details v now c \<rparr>)"

subsection \<open>The HTTP transport\<close>

fun digit_char :: "nat \<Rightarrow> char" where
  "digit_char n = char_of (48 + n)"

fun show_nat :: "nat \<Rightarrow> string" where
  "show_nat n = (if n < 10 then [digit_char n] else show_nat (n div 10) @ [digit_char (n mod 10)])"

text \<open>The response of \<open>fetch\<close>, with what reading its body as text or as JSON gives.\<close>

record response =
  r_ok :: bool
  r_status :: nat
  r_statusText :: string
  r_text :: "string + string"
  r_json :: "string + jsval"

definition createN8NCredential_try :: "variant \<Rightarrow> string \<Rightarrow> (string + response) \<Rightarrow> string + result" where
  \<comment> \<open>the \<open>try\<close> block; the log line between \<open>response.json()\<close> and the check reads
      \<open>result.data\<close>, which throws when \<open>result\<close> is \<open>null\<close>\<close>
  "createN8NCredential_try v now fetched =
     (case fetched of
        Inl e \<Rightarrow> Inl e
      | Inr resp \<Rightarrow>
          if \<not> r_ok resp then
            (case r_text resp of
               Inl e \<Rightarrow> Inl e
             | Inr errorText \<Rightarrow>
                 Inl (''N8N API request failed: '' @ show_nat (r_status resp) @ '' - '' @ errorText))
          else
            (case r_json resp of
               Inl e \<Rightarrow> Inl e
             | Inr res \<Rightarrow>
                 (case read_prop res ''data'' of
                    Inl e \<Rightarrow> Inl e
                  | Inr d \<Rightarrow>
                      if \<not> truthy d \<or> \<not> truthy (field d ''id'')
                      then Inl ''No credential ID returned from N8N API''
                      else
                        Inr \<lparr> success = True, credentialId = field d ''id'',
                              message = ''Credential created successfully via N8N API'',
                              details =
                                JObj [(''method'',
                                        JStr (if v = ApiV5 then ''n8n_api_direct''
                                              else ''n8n_api_direct_flag_based'')),
                                      (''credentialName'', field d ''name''),
                                      (''credentialType'', field d ''type''),
                                      (''timestamp'', JStr now)] \<rparr>)))"

definition createN8NCredential :: "variant \<Rightarrow> string \<Rightarrow> (string + response) \<Rightarrow> string + result" where
  \<comment> \<open>\<open>try\<close> and \<open>catch\<close>; \<open>fetched\<close> is the outcome of the \<open>POST\<close> of the payload\<close>
  "createN8NCredential v now fetched =
     (case createN8NCredential_try v now fetched of
        Inr r \<Rightarrow> Inr r
      | Inl e \<Rightarrow>
          Inr \<lparr> success = False, credentialId = JUndefined,
                message = or_message e ''N8N API request failed'',
                details = JObj [(''error_type'', JStr ''api_request_error''),
                                (''timestamp'', JStr now)] \<rparr>)"

section \<open>Symmetric Cipher\<close>

type_synonym byte = "8 word"

definition utf8 :: "string \<Rightarrow> byte list" where
  \<comment> \<open>a \<open>string\<close> here is the sequence of the bytes of its UTF-8 form\<close>
  "utf8 s = map of_char s"

definition hex_digits :: string where
  "hex_digits = ''0123456789abcdef''"

definition hex_byte :: "byte \<Rightarrow> string" where
  "hex_byte b = [hex_digits ! (unat b div 16), hex_digits ! (unat b mod 16)]"

definition toString_hex :: "byte list \<Rightarrow> string" where
  \<comment> \<open>\<open>buf.toString('hex')\<close>\<close>
  "toString_hex bs = concat (map hex_byte bs)"

definition base64_chars :: string where
  "base64_chars = ''ABCDEFGHIJKLMNOPQRSTUVWXYZabcdefghijklmnopqrstuvwxyz0123456789+/''"

definition b64 :: "nat \<Rightarrow> char" where
  "b64 n = base64_chars ! n"

fun toString_base64 :: "byte list \<Rightarrow> string" where
  \<comment> \<open>\<open>buf.toString('base64')\<close>\<close>
  "toString_base64 (a # b # c # rest) =
     [b64 (unat a div 4), b64 (unat a mod 4 * 16 + unat b div 16),
      b64 (unat b mod 16 * 4 + unat c div 64), b64 (unat c mod 64)] @ toString_base64 rest"
| "toString_base64 [a, b] =
     [b64 (unat a div 4), b64 (unat a mod 4 * 16 + unat b div 16),
      b64 (unat b mod 16 * 4), CHR ''='']"
| "toString_base64 [a] = [b64 (unat a div 4), b64 (unat a mod 4 * 16), CHR ''='', CHR ''='']"
| "toString_base64 [] = []"

text \<open>
  \<open>cipher.update(..., 'base64')\<close> and \<open>cipher.final('base64')\<close> encode their output
  through one \<open>StringDecoder\<close>, which holds back the bytes that do not fill a group of
  three until the next call.
\<close>

definition decoder_write :: "byte list \<Rightarrow> byte list \<Rightarrow> string \<times> byte list" where
  \<comment> \<open>the text returned and the bytes held back; \<open>held\<close> are those held back before\<close>
  "decoder_write held buf =
     (let bytes = held @ buf; n = length bytes mod 3
      in (toString_base64 (take (length bytes - n) bytes), drop (length bytes - n) bytes))"

definition decoder_end :: "byte list \<Rightarrow> byte list \<Rightarrow> string" where
  "decoder_end held buf =
     (let (r, held') = (if buf = [] then ([], held) else decoder_write held buf)
      in r @ toString_base64 held')"

text \<open>
  \<open>aes-256-cbc\<close> with the default padding.  The block function of AES-256 is a
  parameter \<open>E\<close> (key, sixteen-byte block); the mode and the padding are written out.
\<close>

definition xor_bytes :: "byte list \<Rightarrow> byte list \<Rightarrow> byte list" where
  "xor_bytes xs ys = map2 (XOR) xs ys"

function blocks :: "byte list \<Rightarrow> byte list list" where
  \<comment> \<open>the complete sixteen-byte blocks of the data\<close>
  "blocks bytes = (if length bytes < 16 then [] else take 16 bytes # blocks (drop 16 bytes))"
  by pat_completeness auto
termination
  by (relation "measure length") auto

declare blocks.simps [simp del]

fun cbc_chain ::
  "(byte list \<Rightarrow> byte list \<Rightarrow> byte list) \<Rightarrow> byte list \<Rightarrow> byte list \<Rightarrow> byte list list \<Rightarrow> byte list list" where
  "cbc_chain E key chain [] = []"
| "cbc_chain E key chain (b # bs) =
     (let c = E key (xor_bytes chain b) in c # cbc_chain E key c bs)"

record cipher =
  cipher_key :: "byte list"
  cipher_chain :: "byte list"
  cipher_buffer :: "byte list"

definition createCipheriv :: "byte list \<Rightarrow> byte list \<Rightarrow> cipher" where
  "createCipheriv key iv = \<lparr> cipher_key = key, cipher_chain = iv, cipher_buffer = [] \<rparr>"

definition cipher_update ::
  "(byte list \<Rightarrow> byte list \<Rightarrow> byte list) \<Rightarrow> cipher \<Rightarrow> byte list \<Rightarrow> byte list \<times> cipher" where
  \<comment> \<open>encrypts the complete blocks and keeps the rest for later\<close>
  "cipher_update E st input =
     (let bytes = cipher_buffer st @ input;
          cs = cbc_chain E (cipher_key st) (cipher_chain st) (blocks bytes)
      in (concat cs,
          st\<lparr> cipher_chain := (if cs = [] then cipher_chain st else last cs),
              cipher_buffer := drop (16 * length cs) bytes \<rparr>))"

definition pkcs7 :: "byte list \<Rightarrow> byte list" where
  \<comment> \<open>\<open>n\<close> bytes of value \<open>n\<close>, \<open>n\<close> from 1 to 16, filling the last block\<close>
  "pkcs7 bytes = (let n = 16 - length bytes mod 16 in bytes @ replicate n (of_nat n))"

definition cipher_final :: "(byte list \<Rightarrow> byte list \<Rightarrow> byte list) \<Rightarrow> cipher \<Rightarrow> byte list" where
  "cipher_final E st = E (cipher_key st) (xor_bytes (cipher_chain st) (pkcs7 (cipher_buffer st)))"

text \<open>
  What the script takes from Node's library and its runtime: the SHA-256 digest, the
  AES-256 block function, and the UTF-8 bytes of a JSON text.
\<close>

record crypto_lib =
  sha256 :: "byte list \<Rightarrow> byte list"
  aes_block :: "byte list \<Rightarrow> byte list \<Rightarrow> byte list"
  utf8_json :: "json_text \<Rightarrow> byte list"

definition encrypt :: "crypto_lib \<Rightarrow> byte list \<Rightarrow> string \<Rightarrow> jsval \<Rightarrow> string" where
  \<comment> \<open>\<open>N8NCrypto.encrypt\<close> of \<open>part_001\<close> 39-49; \<open>iv\<close> is \<open>crypto.randomBytes(16)\<close> and
      \<open>encryptionKey\<close> the field set by the constructor\<close>
  "encrypt lib iv encryptionKey d =
     (let key = sha256 lib (utf8 encryptionKey);
          cipher = createCipheriv key iv;
          (out1, cipher1) = cipher_update (aes_block lib) cipher (utf8_json lib (JSON_stringify d));
          (encrypted1, held) = decoder_write [] out1;
          encrypted = encrypted1 @ decoder_end held (cipher_final (aes_block lib) cipher1)
      in toString_hex iv @ '':'' @ encrypted)"

text \<open>
  The cipher in the words of the specification: CBC over all the blocks of the padded
  text, as one value.
\<close>

definition aes_256_cbc ::
  "(byte list \<Rightarrow> byte list \<Rightarrow> byte list) \<Rightarrow> byte list \<Rightarrow> byte list \<Rightarrow> byte list \<Rightarrow> byte list" where
  "aes_256_cbc E key iv plain = concat (cbc_chain E key iv (blocks (pkcs7 plain)))"

text \<open>
  Modelled from the spec: the decrypt operation of the external consumer, which the
  repository does not contain (``no decrypt operation is needed by this system'').  It
  is the matching operation the specification's round-trip property names: the same key
  derivation, the IV read from the hex text before the colon, the base64 text after it,
  CBC decryption with the inverse block function \<open>D\<close>, and removal of the padding.
\<close>

fun index_of :: "'a \<Rightarrow> 'a list \<Rightarrow> nat option" where
  "index_of x [] = None"
| "index_of x (y # ys) = (if x = y then Some 0 else map_option Suc (index_of x ys))"

fun split_colon :: "string \<Rightarrow> (string \<times> string) option" where
  "split_colon [] = None"
| "split_colon (c # cs) =
     (if c = CHR '':'' then Some ([], cs)
      else map_option (\<lambda>(h, t). (c # h, t)) (split_colon cs))"

fun fromHex :: "string \<Rightarrow> byte list option" where
  "fromHex [] = Some []"
| "fromHex [c] = None"
| "fromHex (c # d # cs) =
     (case (index_of c hex_digits, index_of d hex_digits, fromHex cs) of
        (Some h, Some l, Some bs) \<Rightarrow> Some (of_nat (h * 16 + l) # bs)
      | _ \<Rightarrow> None)"

definition decode_quad :: "char \<Rightarrow> char \<Rightarrow> char \<Rightarrow> char \<Rightarrow> byte list option" where
  "decode_quad p q r s =
     (case (index_of p base64_chars, index_of q base64_chars) of
        (Some a, Some b) \<Rightarrow>
          if r = CHR ''='' \<and> s = CHR ''='' then Some [of_nat (a * 4 + b div 16)]
          else (case index_of r base64_chars of
                  None \<Rightarrow> None
                | Some c \<Rightarrow>
                    if s = CHR ''=''
                    then Some [of_nat (a * 4 + b div 16), of_nat (b mod 16 * 16 + c div 4)]
                    else (case index_of s base64_chars of
                            None \<Rightarrow> None
                          | Some d \<Rightarrow>
                              Some [of_nat (a * 4 + b div 16), of_nat (b mod 16 * 16 + c div 4),
                                    of_nat (c mod 4 * 64 + d)]))
      | _ \<Rightarrow> None)"

fun fromBase64 :: "string \<Rightarrow> byte list option" where
  "fromBase64 [] = Some []"
| "fromBase64 (p # q # r # s # rest) =
     (case decode_quad p q r s of
        None \<Rightarrow> None
      | Some bs \<Rightarrow>
          if rest = [] then Some bs
          else if length bs = 3 then map_option (\<lambda>more. bs @ more) (fromBase64 rest)
          else None)"
| "fromBase64 cs = None"

fun cbc_unchain ::
  "(byte list \<Rightarrow> byte list \<Rightarrow> byte list) \<Rightarrow> byte list \<Rightarrow> byte list \<Rightarrow> byte list list \<Rightarrow> byte list list" where
  "cbc_unchain D key chain [] = []"
| "cbc_unchain D key chain (c # cs) = xor_bytes chain (D key c) # cbc_unchain D key c cs"

definition unpad :: "byte list \<Rightarrow> byte list option" where
  "unpad bytes =
     (if bytes = [] then None
      else let n = unat (last bytes)
           in if 1 \<le> n \<and> n \<le> 16 \<and> n \<le> length bytes \<and>
                 drop (length bytes - n) bytes = replicate n (of_nat n)
              then Some (take (length bytes - n) bytes) else None)"

definition matching_decrypt ::
  "(byte list \<Rightarrow> byte list \<Rightarrow> byte list) \<Rightarrow> crypto_lib \<Rightarrow> string \<Rightarrow> string \<Rightarrow> byte list option" where
  "matching_decrypt D lib encryptionKey stored =
     (case split_colon stored of
        None \<Rightarrow> None
      | Some (h, t) \<Rightarrow>
          (case (fromHex h, fromBase64 t) of
             (Some iv, Some ct) \<Rightarrow>
               if length ct mod 16 \<noteq> 0 then None
               else unpad (concat (cbc_unchain D (sha256 lib (utf8 encryptionKey)) iv (blocks ct)))
           | _ \<Rightarrow> None))"

subsection \<open>The direct-insert transport\<close>

definition insertValues :: "string \<Rightarrow> string \<Rightarrow> jsval \<Rightarrow> string \<Rightarrow> string \<Rightarrow> jsval list" where
  \<comment> \<open>the \<open>values\<close> of the insert: id, name, type, data, createdAt, updatedAt\<close>
  "insertValues uuid credName credentialType encryptedData now =
     [JStr uuid, JStr credName, credentialType, JStr encryptedData, JStr now, JStr now]"

definition insertCredentialToDatabase_try ::
  "crypto_lib \<Rightarrow> byte list \<Rightarrow> string \<Rightarrow> string \<Rightarrow> string \<Rightarrow> (jsval list \<Rightarrow> string + nat) \<Rightarrow> cred \<Rightarrow>
   string + result" where
  \<comment> \<open>the \<open>try\<close> block; \<open>pgQuery\<close> answers the insert with its \<open>rowCount\<close> or throws\<close>
  "insertCredentialToDatabase_try lib iv encryptionKey uuid now pgQuery c =
     (case lookupCredentialType (c_provider c) of
        Inl e \<Rightarrow> Inl e
      | Inr credentialType \<Rightarrow>
          (let encryptedData = encrypt lib iv encryptionKey (JObj (credentialDataObject c));
               credName = credentialName (c_provider c) now
           in case pgQuery (insertValues uuid credName credentialType encryptedData now) of
                Inl e \<Rightarrow> Inl e
              | Inr rowCount \<Rightarrow>
                  if rowCount > 0 then
                    Inr \<lparr> success = True, credentialId = JStr uuid,
                          message = ''Credential inserted successfully'',
                          details =
                            JObj [(''method'', JStr ''direct_database_insert''),
                                  (''credentialName'', JStr credName),
                                  (''credentialType'', credentialType),
                                  (''timestamp'', JStr now)] \<rparr>
                  else Inl ''No rows inserted''))"

definition insertCredentialToDatabase ::
  "crypto_lib \<Rightarrow> byte list \<Rightarrow> string \<Rightarrow> string \<Rightarrow> string \<Rightarrow> (jsval list \<Rightarrow> string + nat) \<Rightarrow> cred \<Rightarrow>
   string + result" where
  \<comment> \<open>\<open>part_001\<close> 372-465: the \<open>catch\<close> returns \<open>error.message\<close> as it is; the error
      code is not modelled\<close>
  "insertCredentialToDatabase lib iv encryptionKey uuid now pgQuery c =
     (case insertCredentialToDatabase_try lib iv encryptionKey uuid now pgQuery c of
        Inr r \<Rightarrow> Inr r
      | Inl e \<Rightarrow>
          Inr \<lparr> success = False, credentialId = JUndefined, message = e,
                details = JObj [(''error_type'', JStr ''database_error''),
                                (''error_code'', JUndefined)] \<rparr>)"

section \<open>Fetching the records\<close>

text \<open>
  The select of the flag-based variants,
  \<open>.eq('injection_requested', true).eq('injected_to_n8n', false)
   .order('injection_requested_at', { ascending: true })\<close>,
  as the store evaluates it: the rows that pass both filters, in ascending order of the
  column, rows without a value last.  The store leaves the order of rows with equal
  values open; here they keep the order they have in the table.
\<close>

definition nulls_last :: "nat option \<Rightarrow> nat \<times> nat" where
  "nulls_last t = (case t of None \<Rightarrow> (1, 0) | Some n \<Rightarrow> (0, n))"

definition select_pending :: "row list \<Rightarrow> row list" where
  "select_pending table =
     sort_key (\<lambda>r. nulls_last (injection_requested_at r))
       (filter (\<lambda>r. injection_requested r = True \<and> injected_to_n8n r = False) table)"

text \<open>
  The select of the queue variant:
  \<open>.eq('user_id', userId).eq('injected_to_n8n', false).is('injection_error', null)
   .order('created_at', { ascending: true })\<close>.
\<close>

definition select_queue :: "string \<Rightarrow> row list \<Rightarrow> row list" where
  "select_queue userId table =
     sort_key (\<lambda>r. nulls_last (created_at r))
       (filter (\<lambda>r. user_id r = userId \<and> injected_to_n8n r = False \<and> injection_error r = None) table)"

text \<open>
  The select of the single-record variant,
  \<open>.eq('user_id', userId).eq('provider', provider).single()\<close>: an error unless exactly one
  row passes.
\<close>

definition select_single :: "string \<Rightarrow> string \<Rightarrow> row list \<Rightarrow> string + row" where
  "select_single userId prov table =
     (case filter (\<lambda>r. user_id r = userId \<and> provider r = prov) table of
        [r] \<Rightarrow> Inr r
      | rs \<Rightarrow> Inl ''JSON object requested, multiple (or no) rows returned'')"

text \<open>What a run leaves behind, in the order it happens.\<close>

datatype event =
    Skipped string string                         \<comment> \<open>the warning for an incomplete row\<close>
  | Processing cred                               \<comment> \<open>an iteration of the loop begins\<close>
  | Injecting cred                                \<comment> \<open>the transport is called for the record\<close>
  | WriteBack where_clause update_data db_outcome \<comment> \<open>an update is sent to the store\<close>

definition complete :: "row \<Rightarrow> bool" where
  \<comment> \<open>the negation of \<open>!row.access_token || !row.client_id || !row.client_secret\<close>\<close>
  "complete r = (\<not> (\<not> present (access_token r) \<or> \<not> present (client_id r) \<or> \<not> present (client_secret r)))"

definition validCredential :: "row \<Rightarrow> cred" where
  \<comment> \<open>the object pushed to \<open>validCredentials\<close>\<close>
  "validCredential r =
     \<lparr> c_user_id = user_id r,
       c_provider = provider r,
       c_token_source = Some (or_default (token_source r) ''auth0''),
       c_access_token = access_token r,
       c_refresh_token = Some (or_default (refresh_token r) []),
       c_client_id = client_id r,
       c_client_secret = client_secret r,
       c_requested_at = injection_requested_at r \<rparr>"

fun validate_rows :: "row list \<Rightarrow> event list \<times> cred list" where
  \<comment> \<open>the loop \<open>for (const row of data)\<close>: the warnings and the valid credentials\<close>
  "validate_rows [] = ([], [])"
| "validate_rows (r # rs) =
     (let (warnings, valid) = validate_rows rs
      in if \<not> complete r then (Skipped (user_id r) (provider r) # warnings, valid)
         else (warnings, validCredential r # valid))"

definition fetchPendingCredentials :: "variant \<Rightarrow> string option \<Rightarrow> row list \<Rightarrow> string + event list \<times> cred list" where
  \<comment> \<open>\<open>queryError\<close> is the \<open>error\<close> of the answer, if the store gave one\<close>
  "fetchPendingCredentials v queryError table =
     (case queryError of
        Some m \<Rightarrow>
          Inl ((if v = DirectInsert then ''Supabase query failed: '' else ''Database query failed: '') @ m)
      | None \<Rightarrow>
          (let rows = select_pending table
           in if rows = [] then Inr ([], []) else Inr (validate_rows rows)))"

definition credentialRecord :: "row \<Rightarrow> cred" where
  \<comment> \<open>the queue variant works on the row as fetched\<close>
  "credentialRecord r =
     \<lparr> c_user_id = user_id r,
       c_provider = provider r,
       c_token_source = token_source r,
       c_access_token = access_token r,
       c_refresh_token = refresh_token r,
       c_client_id = client_id r,
       c_client_secret = client_secret r,
       c_requested_at = injection_requested_at r \<rparr>"

definition findPendingCredentials :: "string option \<Rightarrow> string \<Rightarrow> row list \<Rightarrow> cred list option" where
  \<comment> \<open>\<open>part_003\<close> 160-180: \<open>None\<close> is the \<open>null\<close> returned on an error\<close>
  "findPendingCredentials queryError userId table =
     (case queryError of
        Some m \<Rightarrow> None
      | None \<Rightarrow> Some (map credentialRecord (select_queue userId table)))"

definition fetchUserCredentials :: "string option \<Rightarrow> string \<Rightarrow> string \<Rightarrow> row list \<Rightarrow> cred option" where
  \<comment> \<open>\<open>injector.js\<close> 566-610: \<open>None\<close> is the \<open>null\<close> returned on an error, on no row and
      on an incomplete row\<close>
  "fetchUserCredentials queryError userId prov table =
     (case queryError of
        Some m \<Rightarrow> None
      | None \<Rightarrow>
          (case select_single userId prov table of
             Inl e \<Rightarrow> None
           | Inr r \<Rightarrow>
               if \<not> complete r then None
               else Some \<lparr> c_user_id = userId,
                           c_provider = prov,
                           c_token_source = token_source r,
                           c_access_token = access_token r,
                           c_refresh_token = Some (or_default (refresh_token r) []),
                           c_client_id = client_id r,
                           c_client_secret = client_secret r,
                           c_requested_at = None \<rparr>))"

section \<open>Batch Orchestrator\<close>

record config =
  SUPABASE_URL :: "string option"
  SUPABASE_SERVICE_KEY :: "string option"
  N8N_URL :: "string option"
  N8N_USER_EMAIL :: "string option"
  N8N_USER_PASSWORD :: "string option"
  N8N_ENCRYPTION_KEY :: "string option"
  USER_ID :: "string option"
  PROVIDER :: "string option"
  DB_POSTGRESDB_HOST :: "string option"
  DB_POSTGRESDB_PASSWORD :: "string option"
  DB_POSTGRESDB_DATABASE :: "string option"
  DB_POSTGRESDB_USER :: "string option"

fun join :: "string \<Rightarrow> string list \<Rightarrow> string" where
  "join sep [] = []"
| "join sep [x] = x"
| "join sep (x # y # ys) = x @ sep @ join sep (y # ys)"

definition required :: "config \<Rightarrow> (string \<times> string option) list" where
  \<comment> \<open>\<open>part_001\<close> 179-187, each name with the value \<open>CONFIG[key]\<close>\<close>
  "required cfg =
     [(''SUPABASE_URL'', SUPABASE_URL cfg),
      (''SUPABASE_SERVICE_KEY'', SUPABASE_SERVICE_KEY cfg),
      (''N8N_ENCRYPTION_KEY'', N8N_ENCRYPTION_KEY cfg),
      (''DB_POSTGRESDB_HOST'', DB_POSTGRESDB_HOST cfg),
      (''DB_POSTGRESDB_PASSWORD'', DB_POSTGRESDB_PASSWORD cfg),
      (''DB_POSTGRESDB_DATABASE'', DB_POSTGRESDB_DATABASE cfg),
      (''DB_POSTGRESDB_USER'', DB_POSTGRESDB_USER cfg)]"

definition missing :: "config \<Rightarrow> string list" where
  "missing cfg = map fst (filter (\<lambda>kv. \<not> present (snd kv)) (required cfg))"

definition validate_config :: "variant \<Rightarrow> config \<Rightarrow> string option" where
  \<comment> \<open>the checks at the head of \<open>main\<close> (\<open>validateEnvironment\<close> in the direct-insert
      script): the message of the error thrown, if any\<close>
  "validate_config v cfg =
     (if v = DirectInsert then
        (if missing cfg \<noteq> []
         then Some (''Missing required environment variables: '' @ join '', '' (missing cfg))
         else None)
      else if v = CliSingle \<and> (\<not> present (USER_ID cfg) \<or> \<not> present (PROVIDER cfg))
        then Some ''Missing required parameters: USER_ID and PROVIDER must be set''
      else if \<not> present (SUPABASE_URL cfg) \<or> \<not> present (SUPABASE_SERVICE_KEY cfg)
        then Some ''Missing Supabase configuration''
      else if (v = ApiV5 \<or> v = ApiFlag) \<and>
              (\<not> present (N8N_URL cfg) \<or> \<not> present (N8N_USER_EMAIL cfg) \<or>
               \<not> present (N8N_USER_PASSWORD cfg))
        then Some ''Missing N8N configuration''
      else if (v = CliFlag \<or> v = CliSingle \<or> v = CliQueue) \<and>
              (\<not> present (N8N_URL cfg) \<or> \<not> present (N8N_ENCRYPTION_KEY cfg))
        then Some ''Missing N8N configuration''
      else if v = CliQueue \<and> \<not> present (USER_ID cfg)
        then Some ''Missing USER_ID from template''
      else None)"

text \<open>
  Everything outside the script that a run depends on.  \<open>startup_error\<close> is the message
  of the error thrown by the step that precedes the loop (\<open>n8n --version\<close>,
  \<open>authenticateN8N\<close>, or connecting to the target database and checking its schema),
  when that step fails.
\<close>

record world =
  clock :: string
  uuid_for :: "cred \<Rightarrow> string"
  iv_for :: "cred \<Rightarrow> byte list"
  crypto :: crypto_lib
  select_error :: "string option"
  startup_error :: "string option"
  cli_run :: "json_text \<Rightarrow> cli_world"
  http_post :: "jsval \<Rightarrow> string + response"
  pg_insert :: "jsval list \<Rightarrow> string + nat"
  store_answer :: "where_clause \<Rightarrow> update_data \<Rightarrow> db_outcome"

record state =
  table :: "row list"
  trace :: "event list"
  successCount :: nat
  errorCount :: nat
  aborted :: "string option"

definition createCredentialTemplate :: "variant \<Rightarrow> string \<Rightarrow> string \<Rightarrow> cred \<Rightarrow> string + jsval" where
  "createCredentialTemplate v uuid now c =
     (if v = CliFlag then createCredentialTemplate_flag uuid now c
      else if v = CliSingle then createCredentialTemplate_single uuid now c
      else createCredentialTemplate_queue uuid now c)"

definition attempt :: "variant \<Rightarrow> config \<Rightarrow> world \<Rightarrow> cred \<Rightarrow> event list \<times> (string + result)" where
  \<comment> \<open>the head of the \<open>try\<close> block of the loop, up to \<open>importResult\<close>: \<open>Inl\<close> when
      building the payload throws\<close>
  "attempt v cfg w c =
     (if v = ApiV5 \<or> v = ApiFlag then
        (case createCredentialPayload (clock w) c of
           Inl e \<Rightarrow> ([], Inl e)
         | Inr payload \<Rightarrow>
             ([Injecting c], createN8NCredential v (clock w) (http_post w payload)))
      else if v = DirectInsert then
        ([Injecting c],
         insertCredentialToDatabase (crypto w) (iv_for w c) (or_default (N8N_ENCRYPTION_KEY cfg) [])
           (uuid_for w c) (clock w) (pg_insert w) c)
      else
        (case createCredentialTemplate v (uuid_for w c) (clock w) c of
           Inl e \<Rightarrow> ([], Inl e)
         | Inr template \<Rightarrow>
             (let jsonContent = generateCredentialJSON v [template]
              in ([Injecting c],
                  executeN8NImport v (clock w) (cli_run w jsonContent) jsonContent c))))"

fun fallback_message :: "variant \<Rightarrow> string" where
  \<comment> \<open>\<open>throw new Error(importResult.message || '...')\<close>\<close>
  "fallback_message ApiV5 = ''API request failed''"
| "fallback_message ApiFlag = ''API request failed''"
| "fallback_message DirectInsert = ''Insert failed''"
| "fallback_message v = ''Import failed''"

fun success_message :: "variant \<Rightarrow> string" where
  "success_message CliFlag = ''Credentials injected successfully via Northflank job (flag-based)''"
| "success_message ApiV5 = ''Credentials injected successfully via N8N API (flag-based)''"
| "success_message ApiFlag = ''Credentials injected successfully via N8N API (flag-based)''"
| "success_message DirectInsert = ''Credentials injected via direct database insert''"
| "success_message v = ''Credentials injected successfully via Northflank job''"

definition failure_details :: "variant \<Rightarrow> string \<Rightarrow> string \<Rightarrow> jsval" where
  \<comment> \<open>the \<open>details\<close> passed in the \<open>catch\<close> block; \<open>prov\<close> is \<open>credData.provider\<close>\<close>
  "failure_details v now prov =
     (if v = ApiFlag then
        JObj [(''error_type'', JStr ''northflank_job_error_flag_based_api''),
              (''timestamp'', JStr now), (''provider'', JStr prov)]
      else if v = DirectInsert then JObj [(''error_type'', JStr ''processing_error'')]
      else if v = CliQueue then JObj [(''error_type'', JStr ''northflank_job_processing_error'')]
      else if v = CliSingle then
        JObj [(''error_type'', JStr ''northflank_job_error''), (''timestamp'', JStr now)]
      else JObj [(''error_type'', JStr ''processing_error''), (''timestamp'', JStr now)])"

definition write_back ::
  "variant \<Rightarrow> world \<Rightarrow> string \<Rightarrow> string \<Rightarrow> string option \<Rightarrow> bool \<Rightarrow> jsval \<Rightarrow> string \<Rightarrow> jsval \<Rightarrow> state \<Rightarrow>
   state \<times> string option" where
  \<comment> \<open>a call of \<open>updateCredentialStatus\<close> in a run: the state after it, and the message
      of the error it throws, if it throws\<close>
  "write_back v w userId prov tokenSource ok cid msg det st =
     (let wc = whereClause v userId prov tokenSource;
          ud = updateData v (clock w) ok cid msg det;
          answer = store_answer w wc ud;
          st1 = st\<lparr> trace := trace st @ [WriteBack wc ud answer] \<rparr>
      in case updateCredentialStatus v (clock w) answer userId prov tokenSource ok cid msg det (table st) of
           Inl e \<Rightarrow> (st1, Some e)
         | Inr table' \<Rightarrow> (st1\<lparr> table := table' \<rparr>, None))"

definition record_user :: "variant \<Rightarrow> config \<Rightarrow> cred \<Rightarrow> string" where
  \<comment> \<open>the queue variant passes \<open>CONFIG.USER_ID\<close>, the others \<open>credData.user_id\<close>\<close>
  "record_user v cfg c = (if v = CliQueue then or_default (USER_ID cfg) [] else c_user_id c)"

definition record_token_source :: "variant \<Rightarrow> cred \<Rightarrow> string option" where
  \<comment> \<open>the queue variant passes \<open>credentialRecord.token_source || 'auth0'\<close>\<close>
  "record_token_source v c =
     (if v = CliQueue then Some (or_default (c_token_source c) ''auth0'') else c_token_source c)"

definition try_block :: "variant \<Rightarrow> config \<Rightarrow> world \<Rightarrow> cred \<Rightarrow> state \<Rightarrow> state \<times> string option" where
  \<comment> \<open>the \<open>try\<close> block of the loop body: the state it leaves and the message of the
      error it throws, if it throws\<close>
  "try_block v cfg w c st =
     (let (evs, r) = attempt v cfg w c;
          st1 = st\<lparr> trace := trace st @ Processing c # evs \<rparr>
      in case r of
           Inl e \<Rightarrow> (st1, Some e)
         | Inr res \<Rightarrow>
             if success res then
               (case write_back v w (record_user v cfg c) (c_provider c) (record_token_source v c)
                       True (credentialId res) (success_message v) (details res) st1 of
                  (st', None) \<Rightarrow> (st'\<lparr> successCount := successCount st' + 1 \<rparr>, None)
                | (st', Some e) \<Rightarrow> (st', Some e))
             else (st1, Some (or_message (message res) (fallback_message v))))"

definition catch_block :: "variant \<Rightarrow> config \<Rightarrow> world \<Rightarrow> cred \<Rightarrow> string \<Rightarrow> state \<Rightarrow> state" where
  \<comment> \<open>the \<open>catch\<close> block of the loop body, \<open>e\<close> being \<open>error.message\<close>.  An error of
      its write-back leaves the loop, except in the 3.1 HTTP script, which catches it.\<close>
  "catch_block v cfg w c e st =
     (case write_back v w (record_user v cfg c) (c_provider c) (record_token_source v c)
             False JNull e (failure_details v (clock w) (c_provider c)) st of
        (st', None) \<Rightarrow> st'\<lparr> errorCount := errorCount st' + 1 \<rparr>
      | (st', Some e') \<Rightarrow> if v = ApiFlag then st' else st'\<lparr> aborted := Some e' \<rparr>)"

definition process_credential :: "variant \<Rightarrow> config \<Rightarrow> world \<Rightarrow> cred \<Rightarrow> state \<Rightarrow> state" where
  \<comment> \<open>one iteration of the loop\<close>
  "process_credential v cfg w c st =
     (case try_block v cfg w c st of
        (st', None) \<Rightarrow> st'
      | (st', Some e) \<Rightarrow> catch_block v cfg w c e st')"

fun process_all :: "variant \<Rightarrow> config \<Rightarrow> world \<Rightarrow> cred list \<Rightarrow> state \<Rightarrow> state" where
  \<comment> \<open>\<open>for (const credData of pendingCredentials)\<close>, one record after the other\<close>
  "process_all v cfg w [] st = st"
| "process_all v cfg w (c # cs) st =
     (let st' = process_credential v cfg w c st
      in if aborted st' \<noteq> None then st' else process_all v cfg w cs st')"

definition initial :: "row list \<Rightarrow> state" where
  "initial t = \<lparr> table = t, trace = [], successCount = 0, errorCount = 0, aborted = None \<rparr>"

definition exit_code :: "variant \<Rightarrow> state \<Rightarrow> nat" where
  "exit_code v st =
     (if aborted st \<noteq> None then 1
      else if (v = ApiFlag \<or> v = CliQueue) \<and> errorCount st > 0 then 1
      else 0)"

definition main_flag :: "variant \<Rightarrow> config \<Rightarrow> world \<Rightarrow> row list \<Rightarrow> state \<times> nat" where
  \<comment> \<open>\<open>main\<close> of the four flag-based scripts (\<open>CliFlag\<close>, \<open>ApiV5\<close>, \<open>ApiFlag\<close>,
      \<open>DirectInsert\<close>): the final state and the exit status.  The direct-insert script
      connects to the target database before it fetches, the others check the CLI or
      log in after.\<close>
  "main_flag v cfg w t =
     (case validate_config v cfg of
        Some e \<Rightarrow> (initial t, 1)
      | None \<Rightarrow>
          if v = DirectInsert \<and> startup_error w \<noteq> None then (initial t, 1)
          else
            (case fetchPendingCredentials v (select_error w) t of
               Inl e \<Rightarrow> (initial t, 1)
             | Inr (warnings, pendingCredentials) \<Rightarrow>
                 (let st0 = (initial t)\<lparr> trace := warnings \<rparr>
                  in if pendingCredentials = [] then (st0, 0)
                     else if v \<noteq> DirectInsert \<and> startup_error w \<noteq> None then (st0, 1)
                     else (let st = process_all v cfg w pendingCredentials st0
                           in (st, exit_code v st)))))"

definition main_queue :: "config \<Rightarrow> world \<Rightarrow> row list \<Rightarrow> state \<times> nat" where
  \<comment> \<open>\<open>main\<close> of \<open>part_003\<close>\<close>
  "main_queue cfg w t =
     (case validate_config CliQueue cfg of
        Some e \<Rightarrow> (initial t, 1)
      | None \<Rightarrow>
          (case findPendingCredentials (select_error w) (or_default (USER_ID cfg) []) t of
             None \<Rightarrow> (initial t, 0)
           | Some pendingCredentials \<Rightarrow>
               if pendingCredentials = [] then (initial t, 0)
               else if startup_error w \<noteq> None then (initial t, 1)
               else (let st = process_all CliQueue cfg w pendingCredentials (initial t)
                     in (st, exit_code CliQueue st))))"

definition main_single_try :: "config \<Rightarrow> world \<Rightarrow> state \<Rightarrow> state \<times> string option" where
  \<comment> \<open>the \<open>try\<close> block of \<open>main\<close> of the single-record script (\<open>injector.js\<close> 463-563):
      the state it leaves and the message of the error it throws, if it throws\<close>
  "main_single_try cfg w st =
     (case validate_config CliSingle cfg of
        Some e \<Rightarrow> (st, Some e)
      | None \<Rightarrow>
          (case fetchUserCredentials (select_error w) (or_default (USER_ID cfg) [])
                  (or_default (PROVIDER cfg) []) (table st) of
             None \<Rightarrow> (st, Some ''User credentials not found in database'')
           | Some credData \<Rightarrow>
               (case startup_error w of
                  Some e \<Rightarrow> (st, Some e)
                | None \<Rightarrow>
                    (case attempt CliSingle cfg w credData of
                       (evs, Inl e) \<Rightarrow> (st\<lparr> trace := trace st @ evs \<rparr>, Some e)
                     | (evs, Inr res) \<Rightarrow>
                         (let st1 = st\<lparr> trace := trace st @ evs \<rparr>
                          in if success res then
                               write_back CliSingle w (or_default (USER_ID cfg) [])
                                 (or_default (PROVIDER cfg) []) None True (credentialId res)
                                 (success_message CliSingle) (details res) st1
                             else (st1, Some (or_message (message res) (fallback_message CliSingle))))))))"

definition main_single :: "config \<Rightarrow> world \<Rightarrow> row list \<Rightarrow> state \<times> nat" where
  \<comment> \<open>with the \<open>catch\<close> block, which writes the error back when the four settings it
      needs are there, and swallows an error of that write\<close>
  "main_single cfg w t =
     (case main_single_try cfg w (initial t) of
        (st, None) \<Rightarrow> (st, 0)
      | (st, Some e) \<Rightarrow>
          if present (SUPABASE_URL cfg) \<and> present (SUPABASE_SERVICE_KEY cfg) \<and>
             present (USER_ID cfg) \<and> present (PROVIDER cfg)
          then (fst (write_back CliSingle w (or_default (USER_ID cfg) []) (or_default (PROVIDER cfg) [])
                       None False JNull e
                       (failure_details CliSingle (clock w) (or_default (PROVIDER cfg) [])) st), 1)
          else (st, 1))"

section \<open>Reading a trace\<close>

fun processed :: "event list \<Rightarrow> cred list" where
  \<comment> \<open>the records processed, in the order of processing\<close>
  "processed [] = []"
| "processed (Processing c # evs) = c # processed evs"
| "processed (ev # evs) = processed evs"

definition record_filter :: "variant \<Rightarrow> config \<Rightarrow> cred \<Rightarrow> where_clause" where
  \<comment> \<open>the filters the loop sends with the write-backs of a record\<close>
  "record_filter v cfg c =
     whereClause v (record_user v cfg c) (c_provider c) (record_token_source v c)"

section \<open>Inputs of the scenarios\<close>

definition blank_as_null :: "row \<Rightarrow> row" where
  \<comment> \<open>the row with every empty required field replaced by \<open>null\<close>\<close>
  "blank_as_null r =
     r\<lparr> access_token := (if access_token r = Some [] then None else access_token r),
        client_id := (if client_id r = Some [] then None else client_id r),
        client_secret := (if client_secret r = Some [] then None else client_secret r) \<rparr>"

definition scenario_cred :: cred where
  \<comment> \<open>the record of the specification's scenario\<close>
  "scenario_cred =
     \<lparr> c_user_id = ''u1'', c_provider = ''google'', c_token_source = Some ''auth0'',
       c_access_token = Some ''at'', c_refresh_token = Some [], c_client_id = Some ''cid'',
       c_client_secret = Some ''cs'', c_requested_at = Some 1 \<rparr>"

definition scenario_data :: "(string \<times> jsval) list" where
  \<comment> \<open>the \<open>data\<close> the scenario expects\<close>
  "scenario_data =
     [(''clientId'', JStr ''cid''), (''clientSecret'', JStr ''cs''), (''accessToken'', JStr ''at''),
      (''refreshToken'', JStr []), (''tokenType'', JStr ''Bearer''),
      (''grantType'', JStr ''authorizationCode'')]"

definition scenario_row :: row where
  \<comment> \<open>the scenario's record as a pending row of the store\<close>
  "scenario_row =
     \<lparr> user_id = ''u1'', provider = ''google'', token_source = Some ''auth0'',
       access_token = Some ''at'', refresh_token = Some [], client_id = Some ''cid'',
       client_secret = Some ''cs'', injection_requested = True, injected_to_n8n = False,
       injection_requested_at = Some 1, created_at = Some 1, injection_error = None,
       injection_attempted_at = None, injected_at = None, n8n_credential_id = None,
       n8n_credential_ids = None, additional_data = None, updated_at = None \<rparr>"

definition scenario_now :: string where
  \<comment> \<open>a reading of \<open>new Date().toISOString()\<close>\<close>
  "scenario_now = ''2024-01-02T03:04:05.678Z''"


definition cli_ok :: "string \<Rightarrow> cli_world" where
  \<comment> \<open>a world in which the import runs and prints \<open>out\<close>\<close>
  "cli_ok out = \<lparr> writeFile = Inr (), execAsync = Inr (out, []), unlink = Inr () \<rparr>"

definition scenario_world :: world where
  \<comment> \<open>a world in which every import prints a success phrase and the store accepts
      every update\<close>
  "scenario_world =
     \<lparr> clock = scenario_now,
       uuid_for = (\<lambda>c. ''id-1''),
       iv_for = (\<lambda>c. replicate 16 0),
       crypto = \<lparr> sha256 = (\<lambda>bytes. replicate 32 0), aes_block = (\<lambda>key block. block),
                  utf8_json = (\<lambda>t. utf8 ''the serialised credential'') \<rparr>,
       select_error = None,
       startup_error = None,
       cli_run = (\<lambda>j. cli_ok ''Successfully imported 1 credential''),
       http_post = (\<lambda>payload. Inl ''fetch failed''),
       pg_insert = (\<lambda>vals. Inr 1),
       store_answer = (\<lambda>wc ud. DbOk) \<rparr>"

definition scenario_config :: config where
  "scenario_config =
     \<lparr> SUPABASE_URL = Some ''https://store'', SUPABASE_SERVICE_KEY = Some ''key'',
       N8N_URL = Some ''https://n8n'', N8N_USER_EMAIL = Some ''a@b'',
       N8N_USER_PASSWORD = Some ''pw'', N8N_ENCRYPTION_KEY = Some ''secret'',
       USER_ID = Some ''u1'', PROVIDER = Some ''google'',
       DB_POSTGRESDB_HOST = Some ''db'', DB_POSTGRESDB_PASSWORD = Some ''pw'',
       DB_POSTGRESDB_DATABASE = Some ''n8n'', DB_POSTGRESDB_USER = Some ''n8n'' \<rparr>"

definition queue_row_a :: row where
  \<comment> \<open>requested at 1, created at 2\<close>
  "queue_row_a =
     scenario_row\<lparr> provider := ''github'', injection_requested_at := Some 1, created_at := Some 2 \<rparr>"

definition queue_row_b :: row where
  \<comment> \<open>not flagged; requested at 2, created at 1\<close>
  "queue_row_b =
     scenario_row\<lparr> injection_requested := False, injection_requested_at := Some 2,
                   created_at := Some 1 \<rparr>"

definition later_row :: row where
  \<comment> \<open>a pending row requested at 2, after the scenario's row\<close>
  "later_row = scenario_row\<lparr> provider := ''github'', injection_requested_at := Some 2 \<rparr>"

definition incomplete_row :: row where
  \<comment> \<open>a pending row without access token, requested first\<close>
  "incomplete_row =
     scenario_row\<lparr> provider := ''spotify'', access_token := None, injection_requested_at := Some 0 \<rparr>"

definition single_incomplete_row :: row where
  \<comment> \<open>the scenario's row without access token\<close>
  "single_incomplete_row = scenario_row\<lparr> access_token := None \<rparr>"

section \<open>Payload Builder: the provider table\<close>

lemma toUpperCase_g: "toUpperCase_char (CHR ''g'') = CHR ''G''"
  by code_simp

lemma toUpperCase_c: "toUpperCase_char (CHR ''c'') = CHR ''C''"
  by code_simp

lemma get_prop_credentialTypes_supported:
  "get_prop credentialTypes ''google'' = JStr ''googleOAuth2Api''"
  "get_prop credentialTypes ''spotify'' = JStr ''spotifyOAuth2Api''"
  "get_prop credentialTypes ''github'' = JStr ''githubOAuth2Api''"
  "get_prop credentialTypes ''discord'' = JStr ''discordOAuth2Api''"
  "get_prop credentialTypes ''linkedin'' = JStr ''linkedInOAuth2Api''"
  by (simp_all add: get_prop_def credentialTypes_def)

text \<open>The five providers of the table get the type the table gives.\<close>

lemma lookupCredentialType_supported:
  "lookupCredentialType ''google'' = Inr (JStr ''googleOAuth2Api'')"
  "lookupCredentialType ''spotify'' = Inr (JStr ''spotifyOAuth2Api'')"
  "lookupCredentialType ''github'' = Inr (JStr ''githubOAuth2Api'')"
  "lookupCredentialType ''discord'' = Inr (JStr ''discordOAuth2Api'')"
  "lookupCredentialType ''linkedin'' = Inr (JStr ''linkedInOAuth2Api'')"
  by (simp_all add: lookupCredentialType_def get_prop_credentialTypes_supported)

text \<open>
  A provider that is neither in the table nor the name of a property of
  \<open>Object.prototype\<close> is refused.
\<close>

lemma lookupCredentialType_unsupported:
  assumes "p \<notin> fst ` set credentialTypes" "p \<notin> fst ` set object_prototype"
  shows "lookupCredentialType p = Inl (''Unsupported provider: '' @ p)"
proof -
  have "map_of credentialTypes p = None" "map_of object_prototype p = None"
    using assms by (simp_all add: map_of_eq_None_iff)
  then show ?thesis by (simp add: lookupCredentialType_def get_prop_def)
qed

lemma lookupCredentialType_scenario:
  "lookupCredentialType ''unsupported_xyz'' = Inl ''Unsupported provider: unsupported_xyz''"
  by (simp add: lookupCredentialType_def get_prop_def credentialTypes_def object_prototype_def)

lemma lookupCredentialType_inherited:
  "lookupCredentialType ''constructor'' = Inr (JNative ''Object'')"
  by (simp add: lookupCredentialType_def get_prop_def credentialTypes_def object_prototype_def)

text \<open>
  Claim C4.  The Payload Builder is to map the five providers of the table to their
  types and to fail with ``Unsupported provider'' on every other provider string.  The
  lookup \<open>credentialTypes[credData.provider]\<close> reads inherited properties too, so for the
  provider \<open>constructor\<close>, which is not in the table, the builders of the CLI script
  and of the HTTP script throw nothing and return a payload whose type is a built-in
  function.
\<close>

theorem unsupported_provider_accepted:
  "lookupCredentialType ''constructor'' = Inr (JNative ''Object'') \<and>
   createCredentialTemplate_flag uuid now (c\<lparr>c_provider := ''constructor''\<rparr>) =
     Inr (JObj [(''id'', JStr uuid),
                (''name'', JStr (''Constructor OAuth2 - '' @ minute_stamp now)),
                (''type'', JNative ''Object''),
                (''data'', JObj (oauthData c (to_js (c_refresh_token c))))]) \<and>
   createCredentialPayload now (c\<lparr>c_provider := ''constructor''\<rparr>) =
     Inr (JObj [(''name'', JStr (''Constructor OAuth2 - '' @ minute_stamp now)),
                (''type'', JNative ''Object''),
                (''data'', JObj (oauthData c (to_js (c_refresh_token c))))])"
  by (simp add: lookupCredentialType_inherited createCredentialTemplate_flag_def
      createCredentialPayload_def credentialName_def toUpperCase_c oauthData_def)

section \<open>Payload Builder: the scenario\<close>

lemma replace_first_no_match: "a \<notin> set xs \<Longrightarrow> replace_first a b (xs @ a # ys) = xs @ b # ys"
  by (induction xs) auto

lemma minute_stamp_iso:
  assumes "length d = 10" "CHR ''T'' \<notin> set d" "length hm = 5"
  shows "minute_stamp (d @ ''T'' @ hm @ rest) = d @ '' '' @ hm"
  using assms by (simp add: minute_stamp_def replace_first_no_match)

lemma scenario_oauthData:
  "oauthData (scenario_cred\<lparr>c_token_source := ts, c_requested_at := ra\<rparr>) (JStr []) = scenario_data"
  by (simp add: oauthData_def scenario_cred_def scenario_data_def to_js_def)

lemma scenario_name:
  assumes "length d = 10" "CHR ''T'' \<notin> set d" "length hm = 5"
  shows "credentialName ''google'' (d @ ''T'' @ hm @ rest) = ''Google OAuth2 - '' @ d @ '' '' @ hm"
  using minute_stamp_iso[OF assms] by (simp add: credentialName_def toUpperCase_g)

text \<open>
  Claim C5, as amended.  For the scenario's record (user \<open>u1\<close>, provider \<open>google\<close>,
  access token \<open>at\<close>, client id \<open>cid\<close>, client secret \<open>cs\<close>, empty refresh token) and
  a clock reading of the form date, \<open>T\<close>, hours and minutes, rest, every builder
  gives the type \<open>googleOAuth2Api\<close> and the name \<open>Google OAuth2 - \<close> followed by the
  date, a space, and the hours and minutes.  The builders of the CLI and HTTP scripts
  give a \<open>data\<close> object of exactly the six fields of the scenario; the direct-insert
  script's \<open>data\<close> object has these six fields and \<open>oauthTokenData\<close> after them.
\<close>

theorem scenario_payload:
  assumes "length d = 10" "CHR ''T'' \<notin> set d" "length hm = 5"
    and "now = d @ ''T'' @ hm @ rest"
    and "c = scenario_cred\<lparr>c_token_source := ts, c_requested_at := ra\<rparr>"
    and "name = JStr (''Google OAuth2 - '' @ d @ '' '' @ hm)"
  shows
    "createCredentialTemplate_flag uuid now c =
       Inr (JObj [(''id'', JStr uuid), (''name'', name), (''type'', JStr ''googleOAuth2Api''),
                  (''data'', JObj scenario_data)]) \<and>
     createCredentialTemplate_single uuid now c =
       Inr (JObj [(''id'', JStr uuid), (''name'', name), (''type'', JStr ''googleOAuth2Api''),
                  (''data'', JObj scenario_data), (''createdAt'', JStr now), (''updatedAt'', JStr now)]) \<and>
     createCredentialTemplate_queue uuid now c =
       Inr (JObj [(''id'', JStr uuid), (''name'', name), (''type'', JStr ''googleOAuth2Api''),
                  (''data'', JObj scenario_data), (''createdAt'', JStr now), (''updatedAt'', JStr now)]) \<and>
     createCredentialPayload now c =
       Inr (JObj [(''name'', name), (''type'', JStr ''googleOAuth2Api''),
                  (''data'', JObj scenario_data)]) \<and>
     lookupCredentialType (c_provider c) = Inr (JStr ''googleOAuth2Api'') \<and>
     credentialName (c_provider c) now = ''Google OAuth2 - '' @ d @ '' '' @ hm \<and>
     credentialDataObject c =
       scenario_data @
       [(''oauthTokenData'',
          JObj [(''access_token'', JStr ''at''), (''refresh_token'', JStr []),
                (''token_type'', JStr ''Bearer'')])]"
proof -
  have p: "c_provider c = ''google''" and r: "c_refresh_token c = Some []"
    and a: "c_access_token c = Some ''at''"
    using assms(5) by (simp_all add: scenario_cred_def)
  have n: "credentialName ''google'' now = ''Google OAuth2 - '' @ d @ '' '' @ hm"
    using scenario_name[OF assms(1-3)] assms(4) by simp
  have od: "oauthData c (JStr []) = scenario_data"
    using scenario_oauthData assms(5) by simp
  have t: "lookupCredentialType ''google'' = Inr (JStr ''googleOAuth2Api'')"
    by (rule lookupCredentialType_supported)
  show ?thesis
    by (simp add: createCredentialTemplate_flag_def createCredentialTemplate_single_def
        createCredentialTemplate_queue_def createCredentialPayload_def credentialDataObject_def
        p r a n od t assms(6) to_js_def or_default_def)
qed

theorem scenario_payload_witness:
  "length ''2024-01-02'' = 10 \<and> CHR ''T'' \<notin> set ''2024-01-02'' \<and> length ''03:04'' = 5 \<and>
   createCredentialTemplate_flag ''id-1'' ''2024-01-02T03:04:05.678Z'' scenario_cred =
     Inr (JObj [(''id'', JStr ''id-1''), (''name'', JStr ''Google OAuth2 - 2024-01-02 03:04''),
                (''type'', JStr ''googleOAuth2Api''), (''data'', JObj scenario_data)]) \<and>
   createCredentialPayload ''2024-01-02T03:04:05.678Z'' scenario_cred =
     Inr (JObj [(''name'', JStr ''Google OAuth2 - 2024-01-02 03:04''),
                (''type'', JStr ''googleOAuth2Api''), (''data'', JObj scenario_data)])"
  using scenario_payload[where d="''2024-01-02''" and hm="''03:04''" and rest="'':05.678Z''"
      and now="''2024-01-02T03:04:05.678Z''" and c=scenario_cred and ts="Some ''auth0''"
      and ra="Some 1" and name="JStr ''Google OAuth2 - 2024-01-02 03:04''" and uuid="''id-1''"]
  by (simp add: scenario_cred_def)

text \<open>
  Claim C5 as stated fails: the \<open>data\<close> object of the direct-insert script is not the
  six-field object.
\<close>

theorem scenario_direct_insert_data:
  "credentialDataObject scenario_cred =
     scenario_data @
     [(''oauthTokenData'',
        JObj [(''access_token'', JStr ''at''), (''refresh_token'', JStr []),
              (''token_type'', JStr ''Bearer'')])] \<and>
   credentialDataObject scenario_cred \<noteq> scenario_data"
  by (simp add: credentialDataObject_def oauthData_def scenario_cred_def scenario_data_def to_js_def)

section \<open>Validation of fetched rows\<close>

lemma complete_iff:
  "complete r \<longleftrightarrow> present (access_token r) \<and> present (client_id r) \<and> present (client_secret r)"
  by (auto simp add: complete_def)

lemma present_blank: "present (if x = Some [] then None else x) = present x"
  by (simp add: present_def split: option.splits)

lemma complete_blank_as_null: "complete (blank_as_null r) = complete r"
  by (simp add: complete_iff blank_as_null_def present_blank)

lemma blank_as_null_complete: "complete r \<Longrightarrow> validCredential (blank_as_null r) = validCredential r"
  by (auto simp add: complete_iff blank_as_null_def validCredential_def present_def)

lemma validate_rows_blank_as_null: "validate_rows (map blank_as_null rows) = validate_rows rows"
proof (induction rows)
  case Nil
  show ?case by simp
next
  case (Cons r rows)
  have ids: "user_id (blank_as_null r) = user_id r" "provider (blank_as_null r) = provider r"
    by (simp_all add: blank_as_null_def)
  show ?case
    using Cons.IH by (cases "complete r") (simp_all add: complete_blank_as_null blank_as_null_complete ids split: prod.splits)
qed

text \<open>
  Claim C10.  A row whose access token, client id or client secret is the empty string
  fails the check and is skipped with the warning; replacing empty required fields by
  \<open>null\<close> changes nothing in what the validation loop returns.  The refresh token
  plays no part in the check, and a complete row with an absent or empty refresh token
  becomes a valid credential whose refresh token is the empty string.
\<close>

theorem empty_required_field_is_missing:
  "(access_token r = Some [] \<or> client_id r = Some [] \<or> client_secret r = Some []
      \<longrightarrow> \<not> complete r \<and>
          validate_rows (r # rows) =
            (Skipped (user_id r) (provider r) # fst (validate_rows rows), snd (validate_rows rows))) \<and>
   validate_rows (map blank_as_null (r # rows)) = validate_rows (r # rows) \<and>
   complete (r\<lparr>refresh_token := rt\<rparr>) = complete r \<and>
   (complete r \<and> (refresh_token r = None \<or> refresh_token r = Some [])
      \<longrightarrow> validate_rows (r # rows) = (fst (validate_rows rows), validCredential r # snd (validate_rows rows)) \<and>
          c_refresh_token (validCredential r) = Some [])"
proof -
  have 1: "access_token r = Some [] \<or> client_id r = Some [] \<or> client_secret r = Some [] \<Longrightarrow> \<not> complete r"
    by (auto simp add: complete_iff present_def)
  have 2: "\<not> complete r \<Longrightarrow> validate_rows (r # rows) =
            (Skipped (user_id r) (provider r) # fst (validate_rows rows), snd (validate_rows rows))"
    by (simp split: prod.splits)
  have 3: "complete r \<Longrightarrow> validate_rows (r # rows) = (fst (validate_rows rows), validCredential r # snd (validate_rows rows))"
    by (simp split: prod.splits)
  have 4: "refresh_token r = None \<or> refresh_token r = Some [] \<Longrightarrow> c_refresh_token (validCredential r) = Some []"
    by (auto simp add: validCredential_def or_default_def)
  have 5: "complete (r\<lparr>refresh_token := rt\<rparr>) = complete r"
    by (simp add: complete_iff)
  show ?thesis using 1 2 3 4 5 validate_rows_blank_as_null[of "r # rows"] by blast
qed

theorem empty_required_field_is_missing_witness:
  "access_token (scenario_row\<lparr>access_token := Some []\<rparr>) = Some [] \<and>
   \<not> complete (scenario_row\<lparr>access_token := Some []\<rparr>) \<and>
   validate_rows [scenario_row\<lparr>access_token := Some []\<rparr>, scenario_row] =
     ([Skipped ''u1'' ''google''], [validCredential scenario_row]) \<and>
   complete scenario_row \<and> refresh_token scenario_row = Some [] \<and>
   c_refresh_token (validCredential scenario_row) = Some []"
proof -
  have c: "complete scenario_row"
    by (simp add: complete_def scenario_row_def present_def)
  have v: "validate_rows [scenario_row] = ([], [validCredential scenario_row])"
    using c by simp
  have a: "access_token (scenario_row\<lparr>access_token := Some []\<rparr>) = Some []" by simp
  have ids: "user_id scenario_row = ''u1''" "provider scenario_row = ''google''" "refresh_token scenario_row = Some []"
    by (simp_all add: scenario_row_def)
  show ?thesis
    using empty_required_field_is_missing[of "scenario_row\<lparr>access_token := Some []\<rparr>" "[scenario_row]" "Some []"]
      empty_required_field_is_missing[of "scenario_row" "[]" "Some []"] a c v ids
    by simp
qed


section \<open>The transports\<close>


















section \<open>Write-back after an attempt\<close>

lemma updateData_columns:
  "u_injected_to_n8n (updateData v now ok cid m d) = ok"
  "u_injection_requested (updateData v now ok cid m d) = (if resets_flag v then Some False else None)"
  "u_injection_error (updateData v now ok cid m d) = (if ok then None else Some m)"
  "u_n8n_credential_id (updateData v now ok cid m d) = (if truthy cid then Some cid else None)"
  "u_injected_at (updateData v now ok cid m d) = (if ok then Some now else None)"
  by (simp_all add: updateData_def)

lemma apply_update_columns:
  "injected_to_n8n (apply_update u r) = u_injected_to_n8n u"
  "injection_requested (apply_update u r) =
     (case u_injection_requested u of None \<Rightarrow> injection_requested r | Some b \<Rightarrow> b)"
  "injection_error (apply_update u r) = u_injection_error u"
  "user_id (apply_update u r) = user_id r"
  "provider (apply_update u r) = provider r"
  "token_source (apply_update u r) = token_source r"
  by (simp_all add: apply_update_def)



lemma write_back_trace:
  "trace (fst (write_back v w userId prov ts ok cid m d st)) =
     trace st @ [WriteBack (whereClause v userId prov ts) (updateData v (clock w) ok cid m d)
                   (store_answer w (whereClause v userId prov ts) (updateData v (clock w) ok cid m d))]"
  by (simp add: write_back_def Let_def updateCredentialStatus_def split: db_outcome.splits)






lemma try_block_cases:
  obtains (threw) e where "snd (attempt v cfg w c) = Inl e"
      "try_block v cfg w c st = (st\<lparr> trace := trace st @ Processing c # fst (attempt v cfg w c) \<rparr>, Some e)"
  | (failed) res where "snd (attempt v cfg w c) = Inr res" "\<not> success res"
      "try_block v cfg w c st =
         (st\<lparr> trace := trace st @ Processing c # fst (attempt v cfg w c) \<rparr>,
          Some (or_message (message res) (fallback_message v)))"
  | (wrote) res st' where "snd (attempt v cfg w c) = Inr res" "success res"
      "write_back v w (record_user v cfg c) (c_provider c) (record_token_source v c)
         True (credentialId res) (success_message v) (details res)
         (st\<lparr> trace := trace st @ Processing c # fst (attempt v cfg w c) \<rparr>) = (st', None)"
      "try_block v cfg w c st = (st'\<lparr> successCount := successCount st' + 1 \<rparr>, None)"
  | (unwritten) res st' e where "snd (attempt v cfg w c) = Inr res" "success res"
      "write_back v w (record_user v cfg c) (c_provider c) (record_token_source v c)
         True (credentialId res) (success_message v) (details res)
         (st\<lparr> trace := trace st @ Processing c # fst (attempt v cfg w c) \<rparr>) = (st', Some e)"
      "try_block v cfg w c st = (st', Some e)"
proof -
  obtain evs r where a: "attempt v cfg w c = (evs, r)" by (cases "attempt v cfg w c")
  show ?thesis
  proof (cases r)
    case (Inl e)
    then show ?thesis using a threw[of e] by (simp add: try_block_def)
  next
    case (Inr res)
    show ?thesis
    proof (cases "success res")
      case False
      then show ?thesis using a Inr failed[of res] by (simp add: try_block_def)
    next
      case True
      obtain st' eo where wb: "write_back v w (record_user v cfg c) (c_provider c) (record_token_source v c)
         True (credentialId res) (success_message v) (details res)
         (st\<lparr> trace := trace st @ Processing c # evs \<rparr>) = (st', eo)"
        by (cases "write_back v w (record_user v cfg c) (c_provider c) (record_token_source v c)
         True (credentialId res) (success_message v) (details res)
         (st\<lparr> trace := trace st @ Processing c # evs \<rparr>)")
      show ?thesis
      proof (cases eo)
        case None
        then show ?thesis using a Inr True wb wrote[of res st'] by (simp add: try_block_def)
      next
        case (Some e)
        then show ?thesis using a Inr True wb unwritten[of res st' e] by (simp add: try_block_def)
      qed
    qed
  qed
qed

lemma catch_block_trace:
  "trace (catch_block v cfg w c e st) =
     trace st @
     [WriteBack (whereClause v (record_user v cfg c) (c_provider c) (record_token_source v c))
        (updateData v (clock w) False JNull e (failure_details v (clock w) (c_provider c)))
        (store_answer w (whereClause v (record_user v cfg c) (c_provider c) (record_token_source v c))
           (updateData v (clock w) False JNull e (failure_details v (clock w) (c_provider c))))]"
proof -
  obtain st' eo where wb: "write_back v w (record_user v cfg c) (c_provider c) (record_token_source v c)
             False JNull e (failure_details v (clock w) (c_provider c)) st = (st', eo)"
    by (cases "write_back v w (record_user v cfg c) (c_provider c) (record_token_source v c)
             False JNull e (failure_details v (clock w) (c_provider c)) st")
  have t: "trace st' = trace st @
     [WriteBack (whereClause v (record_user v cfg c) (c_provider c) (record_token_source v c))
        (updateData v (clock w) False JNull e (failure_details v (clock w) (c_provider c)))
        (store_answer w (whereClause v (record_user v cfg c) (c_provider c) (record_token_source v c))
           (updateData v (clock w) False JNull e (failure_details v (clock w) (c_provider c))))]"
    using write_back_trace[of v w "record_user v cfg c" "c_provider c" "record_token_source v c"
        False JNull e "failure_details v (clock w) (c_provider c)" st] wb by simp
  show ?thesis using wb t by (cases eo) (simp_all add: catch_block_def)
qed

text \<open>What a write-back of the loop holds, for the record \<open>c\<close> whose attempt gave \<open>r\<close>.\<close>

lemma success_update_holds:
  assumes "truthy (credentialId res)"
  shows "u_injected_to_n8n (updateData v now True (credentialId res) m d) \<and>
         u_n8n_credential_id (updateData v now True (credentialId res) m d) = Some (credentialId res) \<and>
         u_injection_error (updateData v now True (credentialId res) m d) = None"
  using assms by (simp add: updateData_columns)




section \<open>Order of processing\<close>

lemma processed_append: "processed (xs @ ys) = processed xs @ processed ys"
  by (induction xs rule: processed.induct) simp_all

lemma attempt_events: "fst (attempt v cfg w c) = [] \<or> fst (attempt v cfg w c) = [Injecting c]"
  by (simp add: attempt_def Let_def split: sum.splits)

lemma processed_attempt: "processed (fst (attempt v cfg w c)) = []"
  using attempt_events[of v cfg w c] by auto

lemma write_back_trace_filter:
  "trace (fst (write_back v w (record_user v cfg c) (c_provider c) (record_token_source v c) ok cid m d st)) =
     trace st @ [WriteBack (record_filter v cfg c) (updateData v (clock w) ok cid m d)
                   (store_answer w (record_filter v cfg c) (updateData v (clock w) ok cid m d))]"
  by (simp add: write_back_trace record_filter_def)

lemma process_credential_trace:
  "\<exists>wbs. trace (process_credential v cfg w c st) =
            trace st @ Processing c # fst (attempt v cfg w c) @ wbs \<and>
         (\<forall>ev \<in> set wbs. \<exists>u a. ev = WriteBack (record_filter v cfg c) u a)"
proof -
  let ?st1 = "st\<lparr> trace := trace st @ Processing c # fst (attempt v cfg w c) \<rparr>"
  have catch: "\<exists>wbs. trace (catch_block v cfg w c e st2) = trace st2 @ wbs \<and>
      (\<forall>ev \<in> set wbs. \<exists>u a. ev = WriteBack (record_filter v cfg c) u a)" for e st2
    using catch_block_trace[of v cfg w c e st2] by (simp add: record_filter_def)
  show ?thesis
  proof (cases rule: try_block_cases[of v cfg w c st])
    case (threw e)
    from catch[of e ?st1] threw(2) show ?thesis by (auto simp add: process_credential_def)
  next
    case (failed res)
    from catch[of "or_message (message res) (fallback_message v)" ?st1] failed(3) show ?thesis
      by (auto simp add: process_credential_def)
  next
    case (wrote res st')
    have "trace st' = trace ?st1 @
        [WriteBack (record_filter v cfg c) (updateData v (clock w) True (credentialId res) (success_message v) (details res))
           (store_answer w (record_filter v cfg c) (updateData v (clock w) True (credentialId res) (success_message v) (details res)))]"
      using write_back_trace_filter[of v w cfg c True "credentialId res" "success_message v" "details res" ?st1]
        wrote(3) by simp
    then show ?thesis using wrote(4) by (auto simp add: process_credential_def)
  next
    case (unwritten res st' e)
    let ?first = "WriteBack (record_filter v cfg c) (updateData v (clock w) True (credentialId res) (success_message v) (details res))
           (store_answer w (record_filter v cfg c) (updateData v (clock w) True (credentialId res) (success_message v) (details res)))"
    have t: "trace st' = trace ?st1 @ [?first]"
      using write_back_trace_filter[of v w cfg c True "credentialId res" "success_message v" "details res" ?st1]
        unwritten(3) by simp
    from catch[of e st'] obtain wbs where
      w: "trace (catch_block v cfg w c e st') = trace st' @ wbs"
         "\<forall>ev \<in> set wbs. \<exists>u a. ev = WriteBack (record_filter v cfg c) u a"
      by blast
    have "trace (process_credential v cfg w c st) =
            trace st @ Processing c # fst (attempt v cfg w c) @ (?first # wbs)"
      using unwritten(4) w(1) t by (simp add: process_credential_def)
    moreover have "\<forall>ev \<in> set (?first # wbs). \<exists>u a. ev = WriteBack (record_filter v cfg c) u a"
      using w(2) by simp
    ultimately show ?thesis by blast
  qed
qed

lemma processed_write_backs:
  "\<forall>ev \<in> set wbs. \<exists>u a. ev = WriteBack f u a \<Longrightarrow> processed wbs = []"
  by (induction wbs) auto

lemma processed_process_credential:
  "processed (trace (process_credential v cfg w c st)) = processed (trace st) @ [c]"
proof -
  obtain wbs where t: "trace (process_credential v cfg w c st) =
            trace st @ Processing c # fst (attempt v cfg w c) @ wbs"
    and wb: "\<forall>ev \<in> set wbs. \<exists>u a. ev = WriteBack (record_filter v cfg c) u a"
    using process_credential_trace by blast
  show ?thesis
    unfolding t using processed_write_backs[OF wb]
    by (simp add: processed_append processed_attempt)
qed

lemma process_all_aborted:
  "aborted (process_credential v cfg w c st) \<noteq> None \<Longrightarrow>
   process_all v cfg w (c # cs) st = process_credential v cfg w c st"
  by (simp add: Let_def)

lemma process_all_continue:
  "aborted (process_credential v cfg w c st) = None \<Longrightarrow>
   process_all v cfg w (c # cs) st = process_all v cfg w cs (process_credential v cfg w c st)"
  by (simp add: Let_def)

lemma processed_process_all_prefix:
  "\<exists>k. processed (trace (process_all v cfg w cs st)) = processed (trace st) @ take k cs"
proof (induction cs arbitrary: st)
  case Nil
  show ?case by simp
next
  case (Cons c cs)
  let ?st' = "process_credential v cfg w c st"
  have p: "processed (trace ?st') = processed (trace st) @ [c]"
    by (rule processed_process_credential)
  show ?case
  proof (cases "aborted ?st' = None")
    case False
    have "processed (trace ?st') = processed (trace st) @ take (Suc 0) (c # cs)"
      using p by simp
    then show ?thesis unfolding process_all_aborted[OF False] by (rule exI)
  next
    case True
    obtain k where k: "processed (trace (process_all v cfg w cs ?st')) = processed (trace ?st') @ take k cs"
      using Cons.IH[of ?st'] by (rule exE)
    have "processed (trace (process_all v cfg w cs ?st')) = processed (trace st) @ take (Suc k) (c # cs)"
      unfolding k p by simp
    then show ?thesis unfolding process_all_continue[OF True] by (rule exI)
  qed
qed

lemma processed_process_all_complete:
  "aborted (process_all v cfg w cs st) = None \<Longrightarrow>
   processed (trace (process_all v cfg w cs st)) = processed (trace st) @ cs"
proof (induction cs arbitrary: st)
  case Nil
  show ?case by simp
next
  case (Cons c cs)
  let ?st' = "process_credential v cfg w c st"
  have p: "processed (trace ?st') = processed (trace st) @ [c]"
    by (rule processed_process_credential)
  show ?case
  proof (cases "aborted ?st' = None")
    case False
    then show ?thesis using Cons.prems unfolding process_all_aborted[OF False] by simp
  next
    case True
    have "aborted (process_all v cfg w cs ?st') = None"
      using Cons.prems unfolding process_all_continue[OF True] .
    then have "processed (trace (process_all v cfg w cs ?st')) = processed (trace ?st') @ cs"
      by (rule Cons.IH)
    then show ?thesis unfolding process_all_continue[OF True] p by simp
  qed
qed

lemma validate_rows_valid: "snd (validate_rows rows) = map validCredential (filter complete rows)"
  by (induction rows) (auto split: prod.splits)

lemma validate_rows_warnings: "processed (fst (validate_rows rows)) = []"
  by (induction rows) (auto split: prod.splits)

lemma select_pending_set: "set (select_pending t) = {r \<in> set t. pending r}"
  by (auto simp add: select_pending_def pending_def)

lemma select_pending_mset: "mset (select_pending t) = filter_mset pending (mset t)"
proof -
  have "pending = (\<lambda>r. injection_requested r = True \<and> injected_to_n8n r = False)"
    by (auto simp add: pending_def fun_eq_iff)
  then show ?thesis by (simp add: select_pending_def mset_filter)
qed

lemma select_pending_sorted:
  "sorted (map (\<lambda>r. nulls_last (injection_requested_at r)) (select_pending t))"
  by (simp add: select_pending_def)

lemma nulls_last_less: "nulls_last (Some a) \<le> nulls_last (Some b) \<longleftrightarrow> a \<le> b"
  by (simp add: nulls_last_def)

lemma valid_pending_sorted:
  "sorted (map (\<lambda>c. nulls_last (c_requested_at c)) (map validCredential (filter complete (select_pending t))))"
proof -
  have "map (\<lambda>c. nulls_last (c_requested_at c)) (map validCredential (filter complete (select_pending t)))
        = map (\<lambda>r. nulls_last (injection_requested_at r)) (filter complete (select_pending t))"
    by (simp add: validCredential_def)
  then show ?thesis using sorted_filter[OF select_pending_sorted, of complete t] by (simp only:)
qed

lemma fetchPendingCredentials_ok:
  "fetchPendingCredentials v None t =
     Inr (fst (validate_rows (select_pending t)), map validCredential (filter complete (select_pending t)))"
proof (cases "select_pending t = []")
  case True
  then show ?thesis by (simp add: fetchPendingCredentials_def)
next
  case False
  have "validate_rows (select_pending t) =
          (fst (validate_rows (select_pending t)), map validCredential (filter complete (select_pending t)))"
    using validate_rows_valid[of "select_pending t"] by (simp add: prod_eq_iff)
  then show ?thesis using False by (simp add: fetchPendingCredentials_def Let_def)
qed

lemma fetchPendingCredentials_error:
  "\<exists>e. fetchPendingCredentials v (Some m) t = Inl e"
  by (simp add: fetchPendingCredentials_def)

lemma processed_initial: "processed (trace (initial t)) = []"
  by (simp add: initial_def)

lemma main_flag_cases:
  obtains (stopped) "trace (fst (main_flag v cfg w t)) = []" "table (fst (main_flag v cfg w t)) = t"
  | (idle) "validate_config v cfg = None" "select_error w = None"
      "trace (fst (main_flag v cfg w t)) = fst (validate_rows (select_pending t))"
      "table (fst (main_flag v cfg w t)) = t"
  | (ran) "validate_config v cfg = None" "select_error w = None" "startup_error w = None"
      "fst (main_flag v cfg w t) =
         process_all v cfg w (map validCredential (filter complete (select_pending t)))
           ((initial t)\<lparr> trace := fst (validate_rows (select_pending t)) \<rparr>)"
proof (cases "validate_config v cfg")
  case (Some e)
  then have "main_flag v cfg w t = (initial t, 1)" by (simp add: main_flag_def)
  then show ?thesis by (intro stopped) (simp_all add: initial_def)
next
  case None
  show ?thesis
  proof (cases "v = DirectInsert \<and> startup_error w \<noteq> None")
    case True
    then have "main_flag v cfg w t = (initial t, 1)" using None by (simp add: main_flag_def)
    then show ?thesis by (intro stopped) (simp_all add: initial_def)
  next
    case nd: False
    show ?thesis
    proof (cases "select_error w")
      case (Some m)
      obtain e where "fetchPendingCredentials v (Some m) t = Inl e"
        using fetchPendingCredentials_error by blast
      then have "main_flag v cfg w t = (initial t, 1)"
        using None nd Some by (simp add: main_flag_def)
      then show ?thesis by (intro stopped) (simp_all add: initial_def)
    next
      case ne: None
      let ?cs = "map validCredential (filter complete (select_pending t))"
      let ?ws = "fst (validate_rows (select_pending t))"
      have f: "fetchPendingCredentials v (select_error w) t = Inr (?ws, ?cs)"
        using ne fetchPendingCredentials_ok by simp
      show ?thesis
      proof (cases "?cs = [] \<or> startup_error w \<noteq> None")
        case True
        then have "\<exists>n. main_flag v cfg w t = ((initial t)\<lparr> trace := ?ws \<rparr>, n)"
          using None nd f by (auto simp add: main_flag_def Let_def)
        then obtain n where "main_flag v cfg w t = ((initial t)\<lparr> trace := ?ws \<rparr>, n)" by (rule exE)
        then show ?thesis using None ne by (intro idle) (simp_all add: initial_def)
      next
        case False
        then have "main_flag v cfg w t =
            (process_all v cfg w ?cs ((initial t)\<lparr> trace := ?ws \<rparr>),
             exit_code v (process_all v cfg w ?cs ((initial t)\<lparr> trace := ?ws \<rparr>)))"
          using None nd f by (simp add: main_flag_def Let_def)
        then show ?thesis using None ne False by (intro ran) simp_all
      qed
    qed
  qed
qed

lemma main_flag_processed_prefix:
  "\<exists>k. processed (trace (fst (main_flag v cfg w t))) =
        take k (map validCredential (filter complete (select_pending t)))"
proof (cases rule: main_flag_cases[of v cfg w t])
  case stopped
  then have "processed (trace (fst (main_flag v cfg w t))) =
     take 0 (map validCredential (filter complete (select_pending t)))" by simp
  then show ?thesis by (rule exI)
next
  case idle
  then have "processed (trace (fst (main_flag v cfg w t))) =
     take 0 (map validCredential (filter complete (select_pending t)))"
    by (simp add: validate_rows_warnings)
  then show ?thesis by (rule exI)
next
  case ran
  let ?st0 = "(initial t)\<lparr> trace := fst (validate_rows (select_pending t)) \<rparr>"
  obtain k where "processed (trace (process_all v cfg w (map validCredential (filter complete (select_pending t))) ?st0)) =
        processed (trace ?st0) @ take k (map validCredential (filter complete (select_pending t)))"
    using processed_process_all_prefix[of v cfg w _ ?st0] by (rule exE)
  then have "processed (trace (fst (main_flag v cfg w t))) =
     take k (map validCredential (filter complete (select_pending t)))"
    unfolding ran(4) by (simp add: validate_rows_warnings)
  then show ?thesis by (rule exI)
qed

lemma main_flag_processed_complete:
  assumes "validate_config v cfg = None" "select_error w = None" "startup_error w = None"
    and "aborted (fst (main_flag v cfg w t)) = None"
  shows "processed (trace (fst (main_flag v cfg w t))) =
         map validCredential (filter complete (select_pending t))"
proof (cases "map validCredential (filter complete (select_pending t)) = []")
  case True
  then show ?thesis using main_flag_processed_prefix[of v cfg w t] by simp
next
  case False
  let ?cs = "map validCredential (filter complete (select_pending t))"
  let ?st0 = "(initial t)\<lparr> trace := fst (validate_rows (select_pending t)) \<rparr>"
  have f: "fetchPendingCredentials v (select_error w) t = Inr (fst (validate_rows (select_pending t)), ?cs)"
    using assms(2) fetchPendingCredentials_ok by simp
  have m: "fst (main_flag v cfg w t) = process_all v cfg w ?cs ?st0"
    using assms(1,3) f False by (simp add: main_flag_def Let_def)
  have "processed (trace (process_all v cfg w ?cs ?st0)) = processed (trace ?st0) @ ?cs"
    using assms(4) unfolding m by (rule processed_process_all_complete)
  then show ?thesis unfolding m by (simp add: validate_rows_warnings)
qed

lemma sorted_take_order:
  assumes "sorted (map f xs)" "i < length (take k xs)" "j < length (take k xs)"
    and "f (take k xs ! i) < f (take k xs ! j)"
  shows "i < j"
proof (rule ccontr)
  assume "\<not> i < j"
  then have "j \<le> i" by simp
  have s: "sorted (map f (take k xs))" using assms(1) by (simp add: take_map[symmetric] sorted_wrt_take)
  have "map f (take k xs) ! j \<le> map f (take k xs) ! i"
    using s \<open>j \<le> i\<close> assms(2) by (simp add: sorted_iff_nth_mono del: nth_map)
  then have "f (take k xs ! j) \<le> f (take k xs ! i)" using assms(2,3) by simp
  then show False using assms(4) by simp
qed

lemma write_back_accepted:
  assumes "\<forall>wc ud. store_answer w wc ud = DbOk"
  shows "snd (write_back v w userId prov ts ok cid m d st) = None"
  using assms by (simp add: write_back_def Let_def updateCredentialStatus_def)

lemma write_back_aborted:
  "aborted (fst (write_back v w userId prov ts ok cid m d st)) = aborted st"
  by (simp add: write_back_def Let_def updateCredentialStatus_def split: db_outcome.splits)

lemma catch_block_accepted:
  assumes "\<forall>wc ud. store_answer w wc ud = DbOk"
  shows "aborted (catch_block v cfg w c e st) = aborted st"
proof -
  obtain st' eo where wb: "write_back v w (record_user v cfg c) (c_provider c) (record_token_source v c)
             False JNull e (failure_details v (clock w) (c_provider c)) st = (st', eo)"
    by (cases "write_back v w (record_user v cfg c) (c_provider c) (record_token_source v c)
             False JNull e (failure_details v (clock w) (c_provider c)) st")
  have "eo = None"
    using write_back_accepted[OF assms, of v "record_user v cfg c" "c_provider c" "record_token_source v c"
        False JNull e "failure_details v (clock w) (c_provider c)" st] wb by simp
  moreover have "aborted st' = aborted st"
    using write_back_aborted[of v w "record_user v cfg c" "c_provider c" "record_token_source v c"
        False JNull e "failure_details v (clock w) (c_provider c)" st] wb by simp
  ultimately show ?thesis using wb by (simp add: catch_block_def)
qed

lemma process_credential_accepted:
  assumes "\<forall>wc ud. store_answer w wc ud = DbOk"
  shows "aborted (process_credential v cfg w c st) = aborted st"
proof (cases rule: try_block_cases[of v cfg w c st])
  case (threw e)
  then show ?thesis using catch_block_accepted[OF assms] by (simp add: process_credential_def)
next
  case (failed res)
  then show ?thesis using catch_block_accepted[OF assms] by (simp add: process_credential_def)
next
  case (wrote res st')
  have "aborted st' = aborted st"
    using write_back_aborted[of v w "record_user v cfg c" "c_provider c" "record_token_source v c"
        True "credentialId res" "success_message v" "details res"
        "st\<lparr> trace := trace st @ Processing c # fst (attempt v cfg w c) \<rparr>"] wrote(3) by simp
  then show ?thesis using wrote(4) by (simp add: process_credential_def)
next
  case (unwritten res st' e)
  have "snd (write_back v w (record_user v cfg c) (c_provider c) (record_token_source v c)
        True (credentialId res) (success_message v) (details res)
        (st\<lparr> trace := trace st @ Processing c # fst (attempt v cfg w c) \<rparr>)) = None"
    by (rule write_back_accepted[OF assms])
  then show ?thesis using unwritten(3) by simp
qed

lemma process_all_accepted:
  assumes "\<forall>wc ud. store_answer w wc ud = DbOk"
  shows "aborted st = None \<Longrightarrow> aborted (process_all v cfg w cs st) = None"
proof (induction cs arbitrary: st)
  case Nil
  then show ?case by simp
next
  case (Cons c cs)
  have a: "aborted (process_credential v cfg w c st) = None"
    using process_credential_accepted[OF assms, of v cfg c st] Cons.prems by simp
  show ?case unfolding process_all_continue[OF a] using a by (rule Cons.IH)
qed

text \<open>
  Claim C7, as amended.  In the four flag-based variants the fetch returns exactly the
  pending rows, in ascending order of \<open>injection_requested_at\<close> (rows without a value
  last), and the loop processes the complete ones among them one after the other in
  that order: the records processed are an initial part of that list, all of it when
  the run reaches the loop and no write-back error ends it, and of two processed
  records with times \<open>T1 < T2\<close> the one with \<open>T1\<close> comes first.
\<close>

theorem flag_variants_oldest_first:
  assumes "v \<in> {CliFlag, ApiV5, ApiFlag, DirectInsert}"
  shows "mset (select_pending t) = filter_mset pending (mset t) \<and>
     sorted (map (\<lambda>r. nulls_last (injection_requested_at r)) (select_pending t)) \<and>
     (\<exists>k. processed (trace (fst (main_flag v cfg w t))) =
           take k (map validCredential (filter complete (select_pending t)))) \<and>
     (validate_config v cfg = None \<and> select_error w = None \<and> startup_error w = None \<and>
      aborted (fst (main_flag v cfg w t)) = None
        \<longrightarrow> processed (trace (fst (main_flag v cfg w t))) =
            map validCredential (filter complete (select_pending t))) \<and>
     (\<forall>i j T1 T2.
        i < length (processed (trace (fst (main_flag v cfg w t)))) \<and>
        j < length (processed (trace (fst (main_flag v cfg w t)))) \<and>
        c_requested_at (processed (trace (fst (main_flag v cfg w t))) ! i) = Some T1 \<and>
        c_requested_at (processed (trace (fst (main_flag v cfg w t))) ! j) = Some T2 \<and> T1 < T2
          \<longrightarrow> i < j)"
proof -
  let ?ps = "processed (trace (fst (main_flag v cfg w t)))"
  let ?cs = "map validCredential (filter complete (select_pending t))"
  obtain k where k: "?ps = take k ?cs"
    using main_flag_processed_prefix[of v cfg w t] by (rule exE)
  have order: "i < j"
    if h: "i < length ?ps" "j < length ?ps" "c_requested_at (?ps ! i) = Some T1"
      "c_requested_at (?ps ! j) = Some T2" "T1 < T2" for i j T1 T2
  proof -
    have "nulls_last (c_requested_at (take k ?cs ! i)) < nulls_last (c_requested_at (take k ?cs ! j))"
      using h(3,4,5) unfolding k by (simp add: nulls_last_def)
    with valid_pending_sorted[of t] h(1,2) show ?thesis
      unfolding k by (rule sorted_take_order[where f="\<lambda>c. nulls_last (c_requested_at c)"])
  qed
  have complete_run: "validate_config v cfg = None \<and> select_error w = None \<and> startup_error w = None \<and>
      aborted (fst (main_flag v cfg w t)) = None \<longrightarrow> ?ps = ?cs"
    using main_flag_processed_complete[of v cfg w t] by simp
  show ?thesis
    using select_pending_mset[of t] select_pending_sorted[of t] k complete_run order
    by (intro conjI) blast+
qed

lemma select_pending_two_rows: "select_pending [later_row, scenario_row] = [scenario_row, later_row]"
  by (simp add: select_pending_def later_row_def scenario_row_def nulls_last_def)

lemma complete_two_rows: "complete scenario_row" "complete later_row"
  by (simp_all add: complete_def later_row_def scenario_row_def present_def)

lemma scenario_world_accepts: "\<forall>wc ud. store_answer scenario_world wc ud = DbOk"
  by (simp add: scenario_world_def)

lemma scenario_config_valid: "validate_config v scenario_config = None"
  by (simp add: validate_config_def missing_def required_def scenario_config_def present_def)

theorem flag_variants_oldest_first_witness:
  "CliFlag \<in> {CliFlag, ApiV5, ApiFlag, DirectInsert} \<and>
   validate_config CliFlag scenario_config = None \<and> select_error scenario_world = None \<and>
   startup_error scenario_world = None \<and>
   aborted (fst (main_flag CliFlag scenario_config scenario_world [later_row, scenario_row])) = None \<and>
   processed (trace (fst (main_flag CliFlag scenario_config scenario_world [later_row, scenario_row]))) =
     [validCredential scenario_row, validCredential later_row] \<and>
   c_requested_at (validCredential scenario_row) = Some 1 \<and>
   c_requested_at (validCredential later_row) = Some 2"
proof -
  let ?t = "[later_row, scenario_row]"
  have m: "CliFlag \<in> {CliFlag, ApiV5, ApiFlag, DirectInsert}" by simp
  have w: "select_error scenario_world = None" "startup_error scenario_world = None"
    by (simp_all add: scenario_world_def)
  have cs: "map validCredential (filter complete (select_pending ?t)) =
        [validCredential scenario_row, validCredential later_row]"
    by (simp add: select_pending_two_rows complete_two_rows)
  have f: "fetchPendingCredentials CliFlag (select_error scenario_world) ?t =
      Inr (fst (validate_rows (select_pending ?t)), [validCredential scenario_row, validCredential later_row])"
    using fetchPendingCredentials_ok[of CliFlag ?t] w(1) cs by simp
  have run: "fst (main_flag CliFlag scenario_config scenario_world ?t) =
      process_all CliFlag scenario_config scenario_world
        [validCredential scenario_row, validCredential later_row]
        ((initial ?t)\<lparr> trace := fst (validate_rows (select_pending ?t)) \<rparr>)"
    using scenario_config_valid[of CliFlag] w(2) f by (simp add: main_flag_def Let_def)
  have a: "aborted (fst (main_flag CliFlag scenario_config scenario_world ?t)) = None"
    unfolding run by (rule process_all_accepted[OF scenario_world_accepts]) (simp add: initial_def)
  have t: "c_requested_at (validCredential scenario_row) = Some 1"
    "c_requested_at (validCredential later_row) = Some 2"
    by (simp_all add: validCredential_def scenario_row_def later_row_def)
  from flag_variants_oldest_first[OF m, of ?t scenario_config scenario_world]
  have "processed (trace (fst (main_flag CliFlag scenario_config scenario_world ?t))) =
     map validCredential (filter complete (select_pending ?t))"
    using scenario_config_valid[of CliFlag] w a by blast
  then show ?thesis using m scenario_config_valid[of CliFlag] w a cs t by simp
qed

text \<open>
  Claim C7 as stated fails: the queue script is a batch variant, and it fetches the
  rows of the configured user that are not injected and have no error, flagged or not,
  in ascending order of \<open>created_at\<close>.  Of the two rows below it processes the one
  requested at 2 before the one requested at 1.
\<close>

theorem queue_variant_order:
  "findPendingCredentials None ''u1'' [queue_row_a, queue_row_b] =
     Some [credentialRecord queue_row_b, credentialRecord queue_row_a] \<and>
   c_requested_at (credentialRecord queue_row_a) = Some 1 \<and>
   c_requested_at (credentialRecord queue_row_b) = Some 2 \<and>
   \<not> pending queue_row_b \<and>
   processed (trace (fst (main_queue scenario_config scenario_world [queue_row_a, queue_row_b]))) =
     [credentialRecord queue_row_b, credentialRecord queue_row_a]"
proof -
  let ?t = "[queue_row_a, queue_row_b]"
  let ?cs = "[credentialRecord queue_row_b, credentialRecord queue_row_a]"
  have s: "select_queue ''u1'' ?t = [queue_row_b, queue_row_a]"
    by (simp add: select_queue_def queue_row_a_def queue_row_b_def scenario_row_def nulls_last_def)
  have f: "findPendingCredentials None ''u1'' ?t = Some ?cs"
    by (simp add: findPendingCredentials_def s)
  have u: "or_default (USER_ID scenario_config) [] = ''u1''" "select_error scenario_world = None"
    "startup_error scenario_world = None"
    by (simp_all add: scenario_config_def scenario_world_def or_default_def)
  have run: "fst (main_queue scenario_config scenario_world ?t) =
      process_all CliQueue scenario_config scenario_world ?cs (initial ?t)"
    using scenario_config_valid[of CliQueue] f u by (simp add: main_queue_def Let_def)
  have a: "aborted (process_all CliQueue scenario_config scenario_world ?cs (initial ?t)) = None"
    by (rule process_all_accepted[OF scenario_world_accepts]) (simp add: initial_def)
  have p: "processed (trace (fst (main_queue scenario_config scenario_world ?t))) = ?cs"
    unfolding run using processed_process_all_complete[OF a] by (simp add: initial_def)
  have r: "c_requested_at (credentialRecord queue_row_a) = Some 1"
    "c_requested_at (credentialRecord queue_row_b) = Some 2" "\<not> pending queue_row_b"
    by (simp_all add: credentialRecord_def queue_row_a_def queue_row_b_def scenario_row_def pending_def)
  show ?thesis using f p r by simp
qed

section \<open>Incomplete records\<close>

lemma validate_rows_skipped:
  "r \<in> set rows \<Longrightarrow> \<not> complete r \<Longrightarrow> Skipped (user_id r) (provider r) \<in> set (fst (validate_rows rows))"
  by (induction rows) (auto split: prod.splits)

lemma validate_rows_only_warnings:
  "ev \<in> set (fst (validate_rows rows)) \<Longrightarrow> \<exists>u p. ev = Skipped u p"
  by (induction rows) (auto split: prod.splits if_splits)

lemma db_update_length: "length (db_update wc u tbl) = length tbl"
  by (simp add: db_update_def)

lemma db_update_unmatched:
  "i < length tbl \<Longrightarrow> \<not> matches wc (tbl ! i) \<Longrightarrow> db_update wc u tbl ! i = tbl ! i"
  by (simp add: db_update_def)

lemma write_back_table:
  "table (fst (write_back v w userId prov ts ok cid m d st)) = table st \<or>
   table (fst (write_back v w userId prov ts ok cid m d st)) =
     db_update (whereClause v userId prov ts) (updateData v (clock w) ok cid m d) (table st)"
  by (simp add: write_back_def Let_def updateCredentialStatus_def split: db_outcome.splits)

lemma write_back_keeps:
  assumes "i < length (table st)" "\<not> matches (whereClause v userId prov ts) (table st ! i)"
  shows "length (table (fst (write_back v w userId prov ts ok cid m d st))) = length (table st) \<and>
         table (fst (write_back v w userId prov ts ok cid m d st)) ! i = table st ! i"
  using write_back_table[of v w userId prov ts ok cid m d st] assms
  by (auto simp add: db_update_length db_update_unmatched)

lemma catch_block_keeps:
  assumes "i < length (table st)" "\<not> matches (record_filter v cfg c) (table st ! i)"
  shows "length (table (catch_block v cfg w c e st)) = length (table st) \<and>
         table (catch_block v cfg w c e st) ! i = table st ! i"
proof -
  obtain st' eo where wb: "write_back v w (record_user v cfg c) (c_provider c) (record_token_source v c)
             False JNull e (failure_details v (clock w) (c_provider c)) st = (st', eo)"
    by (cases "write_back v w (record_user v cfg c) (c_provider c) (record_token_source v c)
             False JNull e (failure_details v (clock w) (c_provider c)) st")
  have "length (table st') = length (table st) \<and> table st' ! i = table st ! i"
    using write_back_keeps[of i st v "record_user v cfg c" "c_provider c" "record_token_source v c"
        w False JNull e "failure_details v (clock w) (c_provider c)"] assms wb
    by (simp add: record_filter_def)
  then show ?thesis using wb by (cases eo) (simp_all add: catch_block_def)
qed

lemma process_credential_keeps:
  assumes "i < length (table st)" "\<not> matches (record_filter v cfg c) (table st ! i)"
  shows "length (table (process_credential v cfg w c st)) = length (table st) \<and>
         table (process_credential v cfg w c st) ! i = table st ! i"
proof (cases rule: try_block_cases[of v cfg w c st])
  case (threw e)
  let ?st1 = "st\<lparr> trace := trace st @ Processing c # fst (attempt v cfg w c) \<rparr>"
  have "length (table (catch_block v cfg w c e ?st1)) = length (table ?st1) \<and>
        table (catch_block v cfg w c e ?st1) ! i = table ?st1 ! i"
    by (rule catch_block_keeps) (use assms in simp_all)
  then show ?thesis using threw(2) by (simp add: process_credential_def)
next
  case (failed res)
  let ?st1 = "st\<lparr> trace := trace st @ Processing c # fst (attempt v cfg w c) \<rparr>"
  have "length (table (catch_block v cfg w c (or_message (message res) (fallback_message v)) ?st1)) =
          length (table ?st1) \<and>
        table (catch_block v cfg w c (or_message (message res) (fallback_message v)) ?st1) ! i =
          table ?st1 ! i"
    by (rule catch_block_keeps) (use assms in simp_all)
  then show ?thesis using failed(3) by (simp add: process_credential_def)
next
  case (wrote res st')
  let ?st1 = "st\<lparr> trace := trace st @ Processing c # fst (attempt v cfg w c) \<rparr>"
  have "length (table st') = length (table ?st1) \<and> table st' ! i = table ?st1 ! i"
    using write_back_keeps[of i ?st1 v "record_user v cfg c" "c_provider c" "record_token_source v c"
        w True "credentialId res" "success_message v" "details res"] assms wrote(3)
    by (simp add: record_filter_def)
  then show ?thesis using wrote(4) by (simp add: process_credential_def)
next
  case (unwritten res st' e)
  let ?st1 = "st\<lparr> trace := trace st @ Processing c # fst (attempt v cfg w c) \<rparr>"
  have k: "length (table st') = length (table ?st1) \<and> table st' ! i = table ?st1 ! i"
    using write_back_keeps[of i ?st1 v "record_user v cfg c" "c_provider c" "record_token_source v c"
        w True "credentialId res" "success_message v" "details res"] assms unwritten(3)
    by (simp add: record_filter_def)
  have "length (table (catch_block v cfg w c e st')) = length (table st') \<and>
        table (catch_block v cfg w c e st') ! i = table st' ! i"
    by (rule catch_block_keeps) (use assms k in simp_all)
  then show ?thesis using unwritten(4) k by (simp add: process_credential_def)
qed

lemma process_all_keeps:
  assumes "\<forall>c \<in> set cs. \<not> matches (record_filter v cfg c) r"
  shows "i < length (table st) \<Longrightarrow> table st ! i = r \<Longrightarrow>
         length (table (process_all v cfg w cs st)) = length (table st) \<and>
         table (process_all v cfg w cs st) ! i = r"
  using assms
proof (induction cs arbitrary: st)
  case Nil
  then show ?case by simp
next
  case (Cons c cs)
  let ?st' = "process_credential v cfg w c st"
  have n: "\<not> matches (record_filter v cfg c) (table st ! i)" using Cons.prems by simp
  have k: "length (table ?st') = length (table st) \<and> table ?st' ! i = table st ! i"
    using process_credential_keeps[OF Cons.prems(1) n] .
  show ?case
  proof (cases "aborted ?st' = None")
    case False
    show ?thesis unfolding process_all_aborted[OF False] using k Cons.prems(2) by simp
  next
    case True
    have "length (table (process_all v cfg w cs ?st')) = length (table ?st') \<and>
          table (process_all v cfg w cs ?st') ! i = r"
      by (rule Cons.IH) (use k Cons.prems in simp_all)
    then show ?thesis unfolding process_all_continue[OF True] using k by simp
  qed
qed

lemma process_credential_events:
  assumes "ev \<in> set (trace (process_credential v cfg w c st))"
  shows "ev \<in> set (trace st) \<or> ev = Processing c \<or> ev = Injecting c \<or>
         (\<exists>u a. ev = WriteBack (record_filter v cfg c) u a)"
proof -
  obtain wbs where t: "trace (process_credential v cfg w c st) =
            trace st @ Processing c # fst (attempt v cfg w c) @ wbs"
    and wb: "\<forall>ev \<in> set wbs. \<exists>u a. ev = WriteBack (record_filter v cfg c) u a"
    using process_credential_trace by blast
  have "ev \<in> set (trace st) \<or> ev = Processing c \<or> ev \<in> set (fst (attempt v cfg w c)) \<or> ev \<in> set wbs"
    using assms unfolding t by auto
  moreover have "ev \<in> set (fst (attempt v cfg w c)) \<Longrightarrow> ev = Injecting c"
    using attempt_events[of v cfg w c] by auto
  ultimately show ?thesis using wb by blast
qed

lemma process_credential_extends:
  "ev \<in> set (trace st) \<Longrightarrow> ev \<in> set (trace (process_credential v cfg w c st))"
  using process_credential_trace[of v cfg w c st] by auto

lemma process_all_events:
  "ev \<in> set (trace (process_all v cfg w cs st)) \<Longrightarrow>
   ev \<in> set (trace st) \<or>
   (\<exists>c \<in> set cs. ev = Processing c \<or> ev = Injecting c \<or> (\<exists>u a. ev = WriteBack (record_filter v cfg c) u a))"
proof (induction cs arbitrary: st)
  case Nil
  then show ?case by simp
next
  case (Cons c cs)
  let ?st' = "process_credential v cfg w c st"
  have "ev \<in> set (trace ?st') \<or>
        (\<exists>c \<in> set cs. ev = Processing c \<or> ev = Injecting c \<or> (\<exists>u a. ev = WriteBack (record_filter v cfg c) u a))"
  proof (cases "aborted ?st' = None")
    case False
    then show ?thesis using Cons.prems unfolding process_all_aborted[OF False] by simp
  next
    case True
    then show ?thesis using Cons.prems Cons.IH[of ?st'] unfolding process_all_continue[OF True] by simp
  qed
  then show ?case using process_credential_events[of ev v cfg w c st] by auto
qed

lemma process_all_extends:
  "ev \<in> set (trace st) \<Longrightarrow> ev \<in> set (trace (process_all v cfg w cs st))"
proof (induction cs arbitrary: st)
  case Nil
  then show ?case by simp
next
  case (Cons c cs)
  let ?st' = "process_credential v cfg w c st"
  have e: "ev \<in> set (trace ?st')" using Cons.prems by (rule process_credential_extends)
  show ?case
  proof (cases "aborted ?st' = None")
    case False
    show ?thesis unfolding process_all_aborted[OF False] using e .
  next
    case True
    show ?thesis unfolding process_all_continue[OF True] using e by (rule Cons.IH)
  qed
qed


lemma main_flag_reached:
  assumes "validate_config v cfg = None" "select_error w = None"
    and "v = DirectInsert \<longrightarrow> startup_error w = None"
  obtains (idle) "trace (fst (main_flag v cfg w t)) = fst (validate_rows (select_pending t))"
      "table (fst (main_flag v cfg w t)) = t"
  | (ran) "fst (main_flag v cfg w t) =
         process_all v cfg w (map validCredential (filter complete (select_pending t)))
           ((initial t)\<lparr> trace := fst (validate_rows (select_pending t)) \<rparr>)"
proof -
  let ?cs = "map validCredential (filter complete (select_pending t))"
  let ?ws = "fst (validate_rows (select_pending t))"
  have nd: "\<not> (v = DirectInsert \<and> startup_error w \<noteq> None)" using assms(3) by simp
  have f: "fetchPendingCredentials v (select_error w) t = Inr (?ws, ?cs)"
    using assms(2) fetchPendingCredentials_ok by simp
  show ?thesis
  proof (cases "?cs = [] \<or> startup_error w \<noteq> None")
    case True
    then have "\<exists>n. main_flag v cfg w t = ((initial t)\<lparr> trace := ?ws \<rparr>, n)"
      using assms(1) nd f by (auto simp add: main_flag_def Let_def)
    then obtain n where "main_flag v cfg w t = ((initial t)\<lparr> trace := ?ws \<rparr>, n)" by (rule exE)
    then show ?thesis by (intro idle) (simp_all add: initial_def)
  next
    case False
    then have "main_flag v cfg w t =
        (process_all v cfg w ?cs ((initial t)\<lparr> trace := ?ws \<rparr>),
         exit_code v (process_all v cfg w ?cs ((initial t)\<lparr> trace := ?ws \<rparr>)))"
      using assms(1) nd f by (simp add: main_flag_def Let_def)
    then show ?thesis by (intro ran) simp
  qed
qed

lemma validCredential_fields:
  "complete r \<Longrightarrow> present (c_access_token (validCredential r)) \<and>
     present (c_client_id (validCredential r)) \<and> present (c_client_secret (validCredential r))"
  by (simp add: validCredential_def complete_iff)

lemma single_config_valid:
  "validate_config CliSingle cfg = None \<Longrightarrow>
   present (SUPABASE_URL cfg) \<and> present (SUPABASE_SERVICE_KEY cfg) \<and>
   present (USER_ID cfg) \<and> present (PROVIDER cfg)"
  by (simp add: validate_config_def split: if_splits)

lemma main_single_incomplete:
  assumes "validate_config CliSingle cfg = None" "select_error w = None"
    and "select_single (or_default (USER_ID cfg) []) (or_default (PROVIDER cfg) []) t = Inr r"
    and "\<not> complete r"
  shows "fst (main_single cfg w t) =
     fst (write_back CliSingle w (or_default (USER_ID cfg) []) (or_default (PROVIDER cfg) []) None
            False JNull ''User credentials not found in database''
            (failure_details CliSingle (clock w) (or_default (PROVIDER cfg) [])) (initial t))"
proof -
  have "fetchUserCredentials (select_error w) (or_default (USER_ID cfg) [])
          (or_default (PROVIDER cfg) []) (table (initial t)) = None"
    using assms(2,3,4) by (simp add: fetchUserCredentials_def initial_def)
  then have "main_single_try cfg w (initial t) =
      (initial t, Some ''User credentials not found in database'')"
    using assms(1) by (simp add: main_single_try_def)
  then show ?thesis using single_config_valid[OF assms(1)] by (simp add: main_single_def)
qed

text \<open>
  Claim C6, as amended.  In the four flag-based variants, when the run reaches the
  fetch, a pending row that lacks the access token, the client id or the client secret
  is skipped with the warning; every record the loop processes or hands to the
  transport, and every write-back it sends, belongs to a complete pending row; and the
  skipped row is the same in the store after the run, provided no filter of a complete
  pending row's write-back (user, provider, token source or \<open>auth0\<close>) selects it.
  The single-record variant does not call the transport for such a row either, but it
  sends one write-back, with the error ``User credentials not found in database''.
\<close>

theorem incomplete_record_is_skipped:
  assumes "v \<in> {CliFlag, ApiV5, ApiFlag, DirectInsert}"
    and "validate_config v cfg = None" and "select_error w = None"
    and "v = DirectInsert \<longrightarrow> startup_error w = None"
    and "i < length t" and "pending (t ! i)" and "\<not> complete (t ! i)"
    and "\<forall>r \<in> set t. pending r \<and> complete r \<longrightarrow>
           \<not> matches (record_filter v cfg (validCredential r)) (t ! i)"
  shows "Skipped (user_id (t ! i)) (provider (t ! i)) \<in> set (trace (fst (main_flag v cfg w t))) \<and>
     (\<forall>c. Processing c \<in> set (trace (fst (main_flag v cfg w t))) \<or>
          Injecting c \<in> set (trace (fst (main_flag v cfg w t)))
          \<longrightarrow> (\<exists>r \<in> set t. pending r \<and> complete r \<and> c = validCredential r) \<and>
              present (c_access_token c) \<and> present (c_client_id c) \<and> present (c_client_secret c)) \<and>
     (\<forall>wc u a. WriteBack wc u a \<in> set (trace (fst (main_flag v cfg w t)))
          \<longrightarrow> (\<exists>r \<in> set t. pending r \<and> complete r \<and> wc = record_filter v cfg (validCredential r))) \<and>
     length (table (fst (main_flag v cfg w t))) = length t \<and>
     table (fst (main_flag v cfg w t)) ! i = t ! i \<and>
     (validate_config CliSingle cfg' = None \<and> select_error w' = None \<and>
      select_single (or_default (USER_ID cfg') []) (or_default (PROVIDER cfg') []) t' = Inr r' \<and>
      \<not> complete r'
        \<longrightarrow> trace (fst (main_single cfg' w' t')) =
            [WriteBack (whereClause CliSingle (or_default (USER_ID cfg') []) (or_default (PROVIDER cfg') []) None)
               (updateData CliSingle (clock w') False JNull ''User credentials not found in database''
                  (failure_details CliSingle (clock w') (or_default (PROVIDER cfg') [])))
               (store_answer w'
                  (whereClause CliSingle (or_default (USER_ID cfg') []) (or_default (PROVIDER cfg') []) None)
                  (updateData CliSingle (clock w') False JNull ''User credentials not found in database''
                     (failure_details CliSingle (clock w') (or_default (PROVIDER cfg') []))))])"
proof -
  let ?rows = "select_pending t"
  let ?cs = "map validCredential (filter complete ?rows)"
  let ?ws = "fst (validate_rows ?rows)"
  let ?st0 = "(initial t)\<lparr> trace := ?ws \<rparr>"
  let ?tr = "trace (fst (main_flag v cfg w t))"
  have mem: "t ! i \<in> set ?rows" using assms(5,6) by (simp add: select_pending_set)
  have skipped: "Skipped (user_id (t ! i)) (provider (t ! i)) \<in> set ?ws"
    using validate_rows_skipped[OF mem assms(7)] .
  have cs: "c \<in> set ?cs \<Longrightarrow> \<exists>r \<in> set t. pending r \<and> complete r \<and> c = validCredential r" for c
    by (auto simp add: select_pending_set)
  have unmatched: "\<forall>c \<in> set ?cs. \<not> matches (record_filter v cfg c) (t ! i)"
    using assms(8) by (auto simp add: select_pending_set)
  have single: "trace (fst (main_single cfg' w' t')) =
            [WriteBack (whereClause CliSingle (or_default (USER_ID cfg') []) (or_default (PROVIDER cfg') []) None)
               (updateData CliSingle (clock w') False JNull ''User credentials not found in database''
                  (failure_details CliSingle (clock w') (or_default (PROVIDER cfg') [])))
               (store_answer w'
                  (whereClause CliSingle (or_default (USER_ID cfg') []) (or_default (PROVIDER cfg') []) None)
                  (updateData CliSingle (clock w') False JNull ''User credentials not found in database''
                     (failure_details CliSingle (clock w') (or_default (PROVIDER cfg') []))))]"
    if "validate_config CliSingle cfg' = None" "select_error w' = None"
      "select_single (or_default (USER_ID cfg') []) (or_default (PROVIDER cfg') []) t' = Inr r'"
      "\<not> complete r'"
    unfolding main_single_incomplete[OF that] by (simp add: write_back_trace initial_def)
  have events: "(\<exists>u p. ev = Skipped u p) \<or>
      (\<exists>c \<in> set ?cs. ev = Processing c \<or> ev = Injecting c \<or> (\<exists>u a. ev = WriteBack (record_filter v cfg c) u a))"
    if e: "ev \<in> set ?tr" for ev
  proof (rule main_flag_reached[OF assms(2,3,4), of t], goal_cases)
    case 1
    then show ?case using e validate_rows_only_warnings[of ev ?rows] by simp
  next
    case 2
    have "ev \<in> set (trace ?st0) \<or>
      (\<exists>c \<in> set ?cs. ev = Processing c \<or> ev = Injecting c \<or> (\<exists>u a. ev = WriteBack (record_filter v cfg c) u a))"
      using e unfolding 2 by (rule process_all_events)
    then show ?case using validate_rows_only_warnings[of ev ?rows] by auto
  qed
  have main: "Skipped (user_id (t ! i)) (provider (t ! i)) \<in> set ?tr \<and>
      length (table (fst (main_flag v cfg w t))) = length t \<and>
      table (fst (main_flag v cfg w t)) ! i = t ! i"
  proof (rule main_flag_reached[OF assms(2,3,4), of t], goal_cases)
    case 1
    then show ?case using skipped by simp
  next
    case 2
    have "Skipped (user_id (t ! i)) (provider (t ! i)) \<in> set (trace ?st0)" using skipped by simp
    then have s: "Skipped (user_id (t ! i)) (provider (t ! i)) \<in> set (trace (process_all v cfg w ?cs ?st0))"
      by (rule process_all_extends)
    have "length (table (process_all v cfg w ?cs ?st0)) = length (table ?st0) \<and>
          table (process_all v cfg w ?cs ?st0) ! i = t ! i"
      by (rule process_all_keeps[OF unmatched]) (use assms(5) in \<open>simp_all add: initial_def\<close>)
    then show ?case unfolding 2 using s by (simp add: initial_def)
  qed
  have proc: "(\<exists>r \<in> set t. pending r \<and> complete r \<and> c = validCredential r) \<and>
              present (c_access_token c) \<and> present (c_client_id c) \<and> present (c_client_secret c)"
    if "Processing c \<in> set ?tr \<or> Injecting c \<in> set ?tr" for c
  proof -
    have "c \<in> set ?cs" using that events[of "Processing c"] events[of "Injecting c"] by auto
    then obtain r where r: "r \<in> set t" "pending r" "complete r" "c = validCredential r"
      using cs by blast
    then show ?thesis using validCredential_fields[of r] by blast
  qed
  have wbs: "\<exists>r \<in> set t. pending r \<and> complete r \<and> wc = record_filter v cfg (validCredential r)"
    if h: "WriteBack wc u a \<in> set ?tr" for wc u a
  proof -
    have "\<exists>c \<in> set ?cs. wc = record_filter v cfg c"
      using events[OF h] by auto
    then obtain c where "c \<in> set ?cs" "wc = record_filter v cfg c" by (rule bexE)
    then show ?thesis using cs by blast
  qed
  have c2: "\<forall>c. Processing c \<in> set ?tr \<or> Injecting c \<in> set ?tr
          \<longrightarrow> (\<exists>r \<in> set t. pending r \<and> complete r \<and> c = validCredential r) \<and>
              present (c_access_token c) \<and> present (c_client_id c) \<and> present (c_client_secret c)"
    by (intro allI impI) (rule proc)
  have c3: "\<forall>wc u a. WriteBack wc u a \<in> set ?tr
          \<longrightarrow> (\<exists>r \<in> set t. pending r \<and> complete r \<and> wc = record_filter v cfg (validCredential r))"
    by (intro allI impI) (rule wbs)
  have c6: "validate_config CliSingle cfg' = None \<and> select_error w' = None \<and>
      select_single (or_default (USER_ID cfg') []) (or_default (PROVIDER cfg') []) t' = Inr r' \<and>
      \<not> complete r'
        \<longrightarrow> trace (fst (main_single cfg' w' t')) =
            [WriteBack (whereClause CliSingle (or_default (USER_ID cfg') []) (or_default (PROVIDER cfg') []) None)
               (updateData CliSingle (clock w') False JNull ''User credentials not found in database''
                  (failure_details CliSingle (clock w') (or_default (PROVIDER cfg') [])))
               (store_answer w'
                  (whereClause CliSingle (or_default (USER_ID cfg') []) (or_default (PROVIDER cfg') []) None)
                  (updateData CliSingle (clock w') False JNull ''User credentials not found in database''
                     (failure_details CliSingle (clock w') (or_default (PROVIDER cfg') []))))]"
    by (intro impI, elim conjE) (rule single)
  from main c2 c3 c6 show ?thesis by (elim conjE, intro conjI) assumption+
qed


theorem incomplete_record_is_skipped_witness:
  "CliFlag \<in> {CliFlag, ApiV5, ApiFlag, DirectInsert} \<and>
   validate_config CliFlag scenario_config = None \<and> select_error scenario_world = None \<and>
   (0::nat) < length [incomplete_row, later_row, scenario_row] \<and>
   pending incomplete_row \<and> \<not> complete incomplete_row \<and>
   \<not> matches (record_filter CliFlag scenario_config (validCredential later_row)) incomplete_row \<and>
   \<not> matches (record_filter CliFlag scenario_config (validCredential scenario_row)) incomplete_row \<and>
   Skipped ''u1'' ''spotify'' \<in>
     set (trace (fst (main_flag CliFlag scenario_config scenario_world [incomplete_row, later_row, scenario_row]))) \<and>
   table (fst (main_flag CliFlag scenario_config scenario_world [incomplete_row, later_row, scenario_row])) ! 0 =
     incomplete_row"
proof -
  let ?t = "[incomplete_row, later_row, scenario_row]"
  have m: "CliFlag \<in> {CliFlag, ApiV5, ApiFlag, DirectInsert}" by simp
  have w: "select_error scenario_world = None" by (simp add: scenario_world_def)
  have d: "CliFlag = DirectInsert \<longrightarrow> startup_error scenario_world = None" by simp
  have i: "(0::nat) < length ?t" by simp
  have p: "pending (?t ! 0)" by (simp add: pending_def incomplete_row_def scenario_row_def)
  have c: "\<not> complete (?t ! 0)" by (simp add: complete_def incomplete_row_def present_def)
  have n1: "\<not> matches (record_filter CliFlag scenario_config (validCredential later_row)) incomplete_row"
    by (simp add: matches_def record_filter_def whereClause_def record_user_def validCredential_def
        later_row_def incomplete_row_def scenario_row_def)
  have n2: "\<not> matches (record_filter CliFlag scenario_config (validCredential scenario_row)) incomplete_row"
    by (simp add: matches_def record_filter_def whereClause_def record_user_def validCredential_def
        incomplete_row_def scenario_row_def)
  have u: "\<forall>r \<in> set ?t. pending r \<and> complete r \<longrightarrow>
           \<not> matches (record_filter CliFlag scenario_config (validCredential r)) (?t ! 0)"
    using c n1 n2 by simp
  have ids: "user_id incomplete_row = ''u1''" "provider incomplete_row = ''spotify''"
    by (simp_all add: incomplete_row_def scenario_row_def)
  note r = incomplete_record_is_skipped[OF m scenario_config_valid w d i p c u,
      of scenario_config scenario_world "[single_incomplete_row]" single_incomplete_row]
  have "Skipped (user_id (?t ! 0)) (provider (?t ! 0)) \<in>
          set (trace (fst (main_flag CliFlag scenario_config scenario_world ?t))) \<and>
        table (fst (main_flag CliFlag scenario_config scenario_world ?t)) ! 0 = ?t ! 0"
    using r[THEN conjunct1]
      r[THEN conjunct2, THEN conjunct2, THEN conjunct2, THEN conjunct2, THEN conjunct1]
    by (rule conjI)
  then show ?thesis using m scenario_config_valid[of CliFlag] w p c n1 n2 ids by simp
qed

text \<open>
  Claim C6 as stated fails: for a row without access token the single-record script
  sends a write-back, and the row's \<open>injection_error\<close> changes from \<open>null\<close> to the
  message of the error thrown in \<open>main\<close>.
\<close>

theorem single_variant_writes_back:
  "\<not> complete single_incomplete_row \<and>
   injection_error single_incomplete_row = None \<and>
   table (fst (main_single scenario_config scenario_world [single_incomplete_row])) =
     [apply_update
        (updateData CliSingle scenario_now False JNull ''User credentials not found in database''
           (failure_details CliSingle scenario_now ''google''))
        single_incomplete_row] \<and>
   injection_error
     (apply_update
        (updateData CliSingle scenario_now False JNull ''User credentials not found in database''
           (failure_details CliSingle scenario_now ''google''))
        single_incomplete_row) = Some ''User credentials not found in database''"
proof -
  have c: "\<not> complete single_incomplete_row"
    by (simp add: complete_def single_incomplete_row_def present_def)
  have e: "injection_error single_incomplete_row = None"
    by (simp add: single_incomplete_row_def scenario_row_def)
  have u: "or_default (USER_ID scenario_config) [] = ''u1''"
    "or_default (PROVIDER scenario_config) [] = ''google''"
    by (simp_all add: scenario_config_def or_default_def)
  have w: "select_error scenario_world = None" "clock scenario_world = scenario_now"
    "store_answer scenario_world wc ud = DbOk" for wc ud
    by (simp_all add: scenario_world_def)
  have s: "select_single ''u1'' ''google'' [single_incomplete_row] = Inr single_incomplete_row"
    by (simp add: select_single_def single_incomplete_row_def scenario_row_def)
  have m: "matches (whereClause CliSingle ''u1'' ''google'' None) single_incomplete_row"
    by (simp add: matches_def whereClause_def single_incomplete_row_def scenario_row_def)
  have "fst (main_single scenario_config scenario_world [single_incomplete_row]) =
     fst (write_back CliSingle scenario_world ''u1'' ''google'' None
            False JNull ''User credentials not found in database''
            (failure_details CliSingle scenario_now ''google'') (initial [single_incomplete_row]))"
    using main_single_incomplete[of scenario_config scenario_world "[single_incomplete_row]"
        single_incomplete_row] scenario_config_valid[of CliSingle] w(1,2) s c u by simp
  then have t: "table (fst (main_single scenario_config scenario_world [single_incomplete_row])) =
     [apply_update
        (updateData CliSingle scenario_now False JNull ''User credentials not found in database''
           (failure_details CliSingle scenario_now ''google''))
        single_incomplete_row]"
    using m w by (simp add: write_back_def Let_def updateCredentialStatus_def db_update_def initial_def)
  show ?thesis using c e t by (simp add: apply_update_columns updateData_columns)
qed

section \<open>Hex and base64 text\<close>

lemma index_of_nth: "distinct xs \<Longrightarrow> n < length xs \<Longrightarrow> index_of (xs ! n) xs = Some n"
proof (induction xs arbitrary: n)
  case Nil
  then show ?case by simp
next
  case (Cons x xs)
  show ?case
  proof (cases n)
    case 0
    then show ?thesis by simp
  next
    case (Suc m)
    then have "xs ! m \<noteq> x" using Cons.prems by auto
    then show ?thesis using Suc Cons by auto
  qed
qed

lemma hex_digits_distinct: "distinct hex_digits" "length hex_digits = 16"
  by (simp_all add: hex_digits_def)

lemma base64_chars_distinct: "distinct base64_chars"
  by (simp add: base64_chars_def)

lemma base64_chars_length: "length base64_chars = 64"
  by (simp add: base64_chars_def)

lemma base64_chars_no_pad: "CHR ''='' \<notin> set base64_chars" "CHR '':'' \<notin> set base64_chars"
  by (simp_all add: base64_chars_def)

lemma hex_digits_no_colon: "CHR '':'' \<notin> set hex_digits"
  by (simp add: hex_digits_def)

lemma index_of_hex: "n < 16 \<Longrightarrow> index_of (hex_digits ! n) hex_digits = Some n"
  using index_of_nth[OF hex_digits_distinct(1)] hex_digits_distinct(2) by simp

lemma index_of_b64: "n < 64 \<Longrightarrow> index_of (b64 n) base64_chars = Some n"
  using index_of_nth[OF base64_chars_distinct] base64_chars_length by (simp add: b64_def)

lemma b64_in: "n < 64 \<Longrightarrow> b64 n \<in> set base64_chars"
  using base64_chars_length by (simp add: b64_def)

lemma b64_not_pad: "n < 64 \<Longrightarrow> b64 n \<noteq> CHR ''=''" "n < 64 \<Longrightarrow> b64 n \<noteq> CHR '':''"
  using b64_in base64_chars_no_pad by metis+

lemma unat_byte: "unat (b :: byte) < 256"
  using unsigned_less[of b, where ?'a = nat] by simp

lemma hex_byte_decode:
  "index_of (hex_digits ! (unat (b::byte) div 16)) hex_digits = Some (unat b div 16)"
  "index_of (hex_digits ! (unat (b::byte) mod 16)) hex_digits = Some (unat b mod 16)"
  using unat_byte[of b] by (simp_all add: index_of_hex)

lemma fromHex_toString_hex: "fromHex (toString_hex bs) = Some bs"
proof (induction bs)
  case Nil
  show ?case by (simp add: toString_hex_def)
next
  case (Cons b bs)
  have "unat b div 16 * 16 + unat b mod 16 = unat b" by simp
  then have "(of_nat (unat b div 16 * 16 + unat b mod 16) :: byte) = b" by simp
  then show ?case using Cons
    by (simp add: toString_hex_def hex_byte_def hex_byte_decode)
qed

lemma toString_hex_length: "length (toString_hex bs) = 2 * length bs"
  by (induction bs) (simp_all add: toString_hex_def hex_byte_def)

lemma toString_hex_chars: "set (toString_hex bs) \<subseteq> set hex_digits"
proof (induction bs)
  case Nil
  show ?case by (simp add: toString_hex_def)
next
  case (Cons b bs)
  have "unat b div 16 < length hex_digits" "unat b mod 16 < length hex_digits"
    using unat_byte[of b] by (simp_all add: hex_digits_distinct(2))
  then have "hex_digits ! (unat b div 16) \<in> set hex_digits" "hex_digits ! (unat b mod 16) \<in> set hex_digits"
    by (simp_all only: nth_mem)
  then show ?case using Cons by (simp add: toString_hex_def hex_byte_def)
qed

lemma toString_hex_no_colon: "CHR '':'' \<notin> set (toString_hex bs)"
  using toString_hex_chars[of bs] hex_digits_no_colon by blast

lemma split_colon_first: "CHR '':'' \<notin> set h \<Longrightarrow> split_colon (h @ CHR '':'' # t) = Some (h, t)"
  by (induction h) auto


lemma toString_base64_eq_Nil: "toString_base64 bs = [] \<longleftrightarrow> bs = []"
  by (cases bs rule: toString_base64.cases) simp_all

lemma decode_quad_indices:
  assumes "s0 < 64" "s1 < 64" "s2 < 64" "s3 < 64"
  shows "decode_quad (b64 s0) (b64 s1) (b64 s2) (b64 s3) =
     Some [of_nat (s0 * 4 + s1 div 16), of_nat (s1 mod 16 * 16 + s2 div 4), of_nat (s2 mod 4 * 64 + s3)]"
  using assms by (simp add: decode_quad_def index_of_b64 b64_not_pad del: of_nat_add of_nat_mult)

lemma decode_quad_full:
  fixes a b c :: byte
  shows "decode_quad (b64 (unat a div 4)) (b64 (unat a mod 4 * 16 + unat b div 16))
           (b64 (unat b mod 16 * 4 + unat c div 64)) (b64 (unat c mod 64)) = Some [a, b, c]"
proof -
  have la: "unat a < 256" and lb: "unat b < 256" and lc: "unat c < 256"
    by (rule unat_byte)+
  have i1: "unat a div 4 < 64" using la by simp
  have i2: "unat a mod 4 * 16 + unat b div 16 < 64" using lb by (simp add: div_less_iff_less_mult; arith)
  have i3: "unat b mod 16 * 4 + unat c div 64 < 64" using lc by (simp add: div_less_iff_less_mult; arith)
  have i4: "unat c mod 64 < 64" by simp
  have e1: "unat a div 4 * 4 + (unat a mod 4 * 16 + unat b div 16) div 16 = unat a"
    using lb by (simp; arith)
  have e2: "(unat a mod 4 * 16 + unat b div 16) mod 16 * 16 + (unat b mod 16 * 4 + unat c div 64) div 4 = unat b"
    using lb lc by (simp; arith)
  have e3: "(unat b mod 16 * 4 + unat c div 64) mod 4 * 64 + unat c mod 64 = unat c"
    using lc by (simp; arith)
  have w: "(of_nat (unat a) :: byte) = a" "(of_nat (unat b) :: byte) = b" "(of_nat (unat c) :: byte) = c"
    by simp_all
  show ?thesis
    by (simp only: decode_quad_indices[OF i1 i2 i3 i4] e1 e2 e3 w)
qed


lemma decode_quad_two:
  fixes a b :: byte
  shows "decode_quad (b64 (unat a div 4)) (b64 (unat a mod 4 * 16 + unat b div 16))
           (b64 (unat b mod 16 * 4)) (CHR ''='') = Some [a, b]"
proof -
  have la: "unat a < 256" and lb: "unat b < 256" by (rule unat_byte)+
  have i1: "unat a div 4 < 64" using la by simp
  have i2: "unat a mod 4 * 16 + unat b div 16 < 64" using lb by (simp add: div_less_iff_less_mult; arith)
  have i3: "unat b mod 16 * 4 < 64" by (simp; arith)
  have e1: "unat a div 4 * 4 + (unat a mod 4 * 16 + unat b div 16) div 16 = unat a"
    using lb by (simp; arith)
  have e2: "(unat a mod 4 * 16 + unat b div 16) mod 16 * 16 + (unat b mod 16 * 4) div 4 = unat b"
    using lb by (simp; arith)
  have w: "(of_nat (unat a) :: byte) = a" "(of_nat (unat b) :: byte) = b" by simp_all
  have "decode_quad (b64 (unat a div 4)) (b64 (unat a mod 4 * 16 + unat b div 16))
           (b64 (unat b mod 16 * 4)) (CHR ''='') =
        Some [of_nat (unat a div 4 * 4 + (unat a mod 4 * 16 + unat b div 16) div 16),
              of_nat ((unat a mod 4 * 16 + unat b div 16) mod 16 * 16 + (unat b mod 16 * 4) div 4)]"
    using i1 i2 i3
    by (simp add: decode_quad_def index_of_b64 b64_not_pad del: of_nat_add of_nat_mult)
  then show ?thesis by (simp only: e1 e2 w)
qed

lemma decode_quad_one:
  fixes a :: byte
  shows "decode_quad (b64 (unat a div 4)) (b64 (unat a mod 4 * 16)) (CHR ''='') (CHR ''='') = Some [a]"
proof -
  have la: "unat a < 256" by (rule unat_byte)
  have i1: "unat a div 4 < 64" using la by simp
  have i2: "unat a mod 4 * 16 < 64" by (simp; arith)
  have e1: "unat a div 4 * 4 + (unat a mod 4 * 16) div 16 = unat a" by (simp; arith)
  have w: "(of_nat (unat a) :: byte) = a" by simp
  have "decode_quad (b64 (unat a div 4)) (b64 (unat a mod 4 * 16)) (CHR ''='') (CHR ''='') =
        Some [of_nat (unat a div 4 * 4 + (unat a mod 4 * 16) div 16)]"
    using i1 i2
    by (simp add: decode_quad_def index_of_b64 del: of_nat_add of_nat_mult)
  then show ?thesis by (simp only: e1 w)
qed

lemma fromBase64_toString_base64: "fromBase64 (toString_base64 bs) = Some bs"
proof (induction bs rule: toString_base64.induct)
  case (1 a b c rest)
  show ?case
  proof (cases "rest = []")
    case True
    then show ?thesis by (simp add: decode_quad_full)
  next
    case False
    then have "toString_base64 rest \<noteq> []" by (simp add: toString_base64_eq_Nil)
    then show ?thesis using 1 by (simp add: decode_quad_full)
  qed
next
  case (2 a b)
  show ?case by (simp add: decode_quad_two)
next
  case (3 a)
  show ?case by (simp add: decode_quad_one)
next
  case 4
  show ?case by simp
qed

lemma toString_base64_append:
  "length xs mod 3 = 0 \<Longrightarrow> toString_base64 (xs @ ys) = toString_base64 xs @ toString_base64 ys"
  by (induction xs rule: toString_base64.induct) simp_all

lemma toString_base64_chars: "set (toString_base64 bs) \<subseteq> set base64_chars \<union> {CHR ''=''}"
proof (induction bs rule: toString_base64.induct)
  case (1 a b c rest)
  have la: "unat a < 256" and lb: "unat b < 256" and lc: "unat c < 256" by (rule unat_byte)+
  have "unat a div 4 < 64" using la by simp
  moreover have "unat a mod 4 * 16 + unat b div 16 < 64" using lb by (simp add: div_less_iff_less_mult; arith)
  moreover have "unat b mod 16 * 4 + unat c div 64 < 64" using lc by (simp add: div_less_iff_less_mult; arith)
  moreover have "unat c mod 64 < 64" by simp
  ultimately show ?case using 1 by (simp add: b64_in)
next
  case (2 a b)
  have la: "unat a < 256" and lb: "unat b < 256" by (rule unat_byte)+
  have "unat a div 4 < 64" using la by simp
  moreover have "unat a mod 4 * 16 + unat b div 16 < 64" using lb by (simp add: div_less_iff_less_mult; arith)
  moreover have "unat b mod 16 * 4 < 64" by (simp; arith)
  ultimately show ?case by (simp add: b64_in)
next
  case (3 a)
  have "unat a div 4 < 64" using unat_byte[of a] by simp
  moreover have "unat a mod 4 * 16 < 64" by (simp; arith)
  ultimately show ?case by (simp add: b64_in)
next
  case 4
  show ?case by simp
qed

lemma toString_base64_no_colon: "CHR '':'' \<notin> set (toString_base64 bs)"
  using toString_base64_chars[of bs] base64_chars_no_pad(2) by auto

section \<open>The streaming encoder\<close>

lemma base64_split:
  assumes "n mod 3 = 0" "n \<le> length xs"
  shows "toString_base64 (take n xs) @ toString_base64 (drop n xs) = toString_base64 xs"
proof -
  have "length (take n xs) mod 3 = 0" using assms by simp
  from toString_base64_append[OF this, of "drop n xs"] show ?thesis
    by (simp only: append_take_drop_id)
qed

lemma whole_groups: "(n - n mod 3) mod 3 = (0::nat)" "n - n mod 3 \<le> n"
  by (simp_all add: minus_mod_eq_div_mult)

lemma decoder_write_text:
  "fst (decoder_write held buf) @ toString_base64 (snd (decoder_write held buf)) =
   toString_base64 (held @ buf)"
  unfolding decoder_write_def Let_def fst_conv snd_conv
  by (rule base64_split[OF whole_groups])

lemma decoder_end_text: "decoder_end held buf = toString_base64 (held @ buf)"
proof (cases "buf = []")
  case True
  then show ?thesis by (simp add: decoder_end_def)
next
  case False
  then have "decoder_end held buf =
      fst (decoder_write held buf) @ toString_base64 (snd (decoder_write held buf))"
    by (simp add: decoder_end_def case_prod_unfold Let_def)
  then show ?thesis by (simp only: decoder_write_text)
qed

lemma decoder_stream:
  "fst (decoder_write [] out1) @ decoder_end (snd (decoder_write [] out1)) out2 =
   toString_base64 (out1 @ out2)"
proof -
  let ?n = "length out1 - length out1 mod 3"
  have a: "decoder_write [] out1 = (toString_base64 (take ?n out1), drop ?n out1)"
    by (simp add: decoder_write_def Let_def)
  have m: "length (take ?n out1) mod 3 = 0" using whole_groups[of "length out1"] by simp
  have "toString_base64 (take ?n out1 @ (drop ?n out1 @ out2)) =
        toString_base64 (take ?n out1) @ toString_base64 (drop ?n out1 @ out2)"
    using m by (rule toString_base64_append)
  moreover have "take ?n out1 @ (drop ?n out1 @ out2) = out1 @ out2" by simp
  ultimately show ?thesis unfolding a fst_conv snd_conv decoder_end_text by (simp only:)
qed

section \<open>Blocks, chaining and padding\<close>

lemma blocks_short: "length xs < 16 \<Longrightarrow> blocks xs = []"
  by (subst blocks.simps) simp

lemma blocks_step: "16 \<le> length xs \<Longrightarrow> blocks xs = take 16 xs # blocks (drop 16 xs)"
  by (subst blocks.simps) simp

lemma length_blocks: "length (blocks xs) = length xs div 16"
proof (induction xs rule: blocks.induct)
  case (1 bytes)
  show ?case
  proof (cases "length bytes < 16")
    case True
    then show ?thesis by (simp add: blocks_short)
  next
    case False
    then have h: "16 \<le> length bytes" by simp
    have "length (blocks bytes) = Suc (length (blocks (drop 16 bytes)))"
      unfolding blocks_step[OF h] by simp
    also have "\<dots> = Suc ((length bytes - 16) div 16)" using 1[OF False] by simp
    also have "\<dots> = length bytes div 16" using h by (simp add: le_div_geq)
    finally show ?thesis .
  qed
qed

lemma blocks_lengths: "b \<in> set (blocks xs) \<Longrightarrow> length b = 16"
proof (induction xs rule: blocks.induct)
  case (1 bytes)
  show ?case
  proof (cases "length bytes < 16")
    case True
    then show ?thesis using 1(2) by (simp add: blocks_short)
  next
    case False
    then have h: "16 \<le> length bytes" by simp
    have "b = take 16 bytes \<or> b \<in> set (blocks (drop 16 bytes))"
      using 1(2) unfolding blocks_step[OF h] by simp
    then show ?thesis using 1(1)[OF False] h by auto
  qed
qed

lemma blocks_append:
  "length xs mod 16 = 0 \<Longrightarrow> blocks (xs @ ys) = blocks xs @ blocks ys"
proof (induction xs rule: blocks.induct)
  case (1 bytes)
  show ?case
  proof (cases "length bytes < 16")
    case True
    then have "bytes = []" using 1(2) by simp
    then show ?thesis by (simp add: blocks_short)
  next
    case False
    then have h: "16 \<le> length bytes" by simp
    have h': "16 \<le> length (bytes @ ys)" using h by simp
    have m: "length (drop 16 bytes) mod 16 = 0" using 1(2) h by (simp add: le_mod_geq)
    have "blocks (bytes @ ys) = take 16 (bytes @ ys) # blocks (drop 16 (bytes @ ys))"
      by (rule blocks_step[OF h'])
    also have "\<dots> = take 16 bytes # blocks (drop 16 bytes @ ys)" using h by simp
    also have "\<dots> = take 16 bytes # blocks (drop 16 bytes) @ blocks ys"
      using 1(1)[OF False m] by simp
    also have "\<dots> = blocks bytes @ blocks ys" unfolding blocks_step[OF h] by simp
    finally show ?thesis .
  qed
qed

lemma blocks_one: "length b = 16 \<Longrightarrow> blocks b = [b]"
proof -
  assume l: "length b = 16"
  then have h: "16 \<le> length b" by simp
  have "blocks (drop 16 b) = []" using l by (intro blocks_short) simp
  then show ?thesis unfolding blocks_step[OF h] using l by simp
qed

lemma blocks_concat: "\<forall>b \<in> set bs. length b = 16 \<Longrightarrow> blocks (concat bs) = bs"
proof (induction bs)
  case Nil
  show ?case by (simp add: blocks_short)
next
  case (Cons b bs)
  have lb: "length b = 16" using Cons.prems by simp
  have "blocks (b @ concat bs) = blocks b @ blocks (concat bs)"
    by (rule blocks_append) (simp add: lb)
  then show ?case using Cons lb by (simp add: blocks_one)
qed

lemma length_concat_blocks: "\<forall>b \<in> set bs. length b = 16 \<Longrightarrow> length (concat bs) = 16 * length bs"
  by (induction bs) simp_all

lemma length_cbc_chain: "length (cbc_chain E key chain bs) = length bs"
  by (induction bs arbitrary: chain) (simp_all add: Let_def)

lemma cbc_chain_snoc:
  "cbc_chain E key chain (bs @ [b]) =
   cbc_chain E key chain bs @
   [E key (xor_bytes (if cbc_chain E key chain bs = [] then chain else last (cbc_chain E key chain bs)) b)]"
proof (induction bs arbitrary: chain)
  case Nil
  show ?case by (simp add: Let_def)
next
  case (Cons a bs)
  show ?case
    using Cons[of "E key (xor_bytes chain a)"] by (simp add: Let_def)
qed

lemma length_xor_bytes: "length (xor_bytes xs ys) = min (length xs) (length ys)"
  by (simp add: xor_bytes_def)

lemma xor_bytes_cancel: "length xs = length ys \<Longrightarrow> xor_bytes xs (xor_bytes xs ys) = ys"
proof (induction xs ys rule: list_induct2)
  case Nil
  show ?case by (simp add: xor_bytes_def)
next
  case (Cons x xs y ys)
  have "x XOR (x XOR y) = y" by (simp add: xor.assoc[symmetric])
  then show ?case using Cons by (simp add: xor_bytes_def)
qed

lemma cbc_round_trip:
  assumes inv: "\<forall>b. length b = 16 \<longrightarrow> length (E key b) = 16 \<and> D key (E key b) = b"
  shows "length chain = 16 \<Longrightarrow> \<forall>b \<in> set bs. length b = 16 \<Longrightarrow>
         cbc_unchain D key chain (cbc_chain E key chain bs) = bs \<and>
         (\<forall>c \<in> set (cbc_chain E key chain bs). length c = 16)"
proof (induction bs arbitrary: chain)
  case Nil
  show ?case by simp
next
  case (Cons b bs)
  let ?x = "xor_bytes chain b"
  have lb: "length b = 16" using Cons.prems(2) by simp
  have lx: "length ?x = 16" using Cons.prems(1) lb by (simp add: length_xor_bytes)
  have le: "length (E key ?x) = 16" and de: "D key (E key ?x) = ?x" using inv lx by simp_all
  have undone: "xor_bytes chain (D key (E key ?x)) = b"
    unfolding de using Cons.prems(1) lb by (simp add: xor_bytes_cancel)
  have rest: "cbc_unchain D key (E key ?x) (cbc_chain E key (E key ?x) bs) = bs \<and>
         (\<forall>c \<in> set (cbc_chain E key (E key ?x) bs). length c = 16)"
    using Cons.IH[OF le] Cons.prems(2) by simp
  show ?case using undone rest le by (simp add: Let_def)
qed

lemma pkcs7_length: "length (pkcs7 m) = length m + (16 - length m mod 16)"
  by (simp add: pkcs7_def Let_def)

lemma pkcs7_whole_blocks: "length (pkcs7 m) mod 16 = 0"
proof -
  have "length m mod 16 < 16" by simp
  then have "length m + (16 - length m mod 16) = 16 * (length m div 16) + 16"
    using div_mult_mod_eq[of "length m" 16] by linarith
  then show ?thesis by (simp add: pkcs7_length)
qed

lemma pkcs7_tail:
  "pkcs7 m = take (16 * (length m div 16)) m @ pkcs7 (drop (16 * (length m div 16)) m)"
proof -
  have "length (drop (16 * (length m div 16)) m) = length m mod 16"
    by (simp add: minus_mult_div_eq_mod)
  then have "pkcs7 (drop (16 * (length m div 16)) m) =
      drop (16 * (length m div 16)) m @ replicate (16 - length m mod 16) (of_nat (16 - length m mod 16))"
    by (simp add: pkcs7_def Let_def)
  then show ?thesis by (simp add: pkcs7_def Let_def)
qed

lemma blocks_pkcs7:
  "blocks (pkcs7 m) = blocks m @ [pkcs7 (drop (16 * (length m div 16)) m)]"
proof -
  let ?q = "length m div 16"
  let ?rest = "drop (16 * ?q) m"
  have lt: "length (take (16 * ?q) m) mod 16 = 0" by simp
  have lr: "length ?rest < 16" by (simp add: minus_mult_div_eq_mod)
  have lp: "length (pkcs7 ?rest) = 16" using lr by (simp add: pkcs7_length)
  have "blocks m = blocks (take (16 * ?q) m @ ?rest)" by simp
  also have "\<dots> = blocks (take (16 * ?q) m) @ blocks ?rest" using lt by (rule blocks_append)
  finally have bm: "blocks m = blocks (take (16 * ?q) m)" using lr by (simp add: blocks_short)
  have "blocks (pkcs7 m) = blocks (take (16 * ?q) m @ pkcs7 ?rest)"
    using pkcs7_tail[of m] by simp
  also have "\<dots> = blocks (take (16 * ?q) m) @ blocks (pkcs7 ?rest)" using lt by (rule blocks_append)
  finally show ?thesis using bm lp by (simp add: blocks_one)
qed

lemma unat_small: "n \<le> 16 \<Longrightarrow> unat (of_nat n :: byte) = n"
  by (simp add: unat_of_nat)

lemma unpad_pkcs7: "unpad (pkcs7 m) = Some m"
proof -
  let ?n = "16 - length m mod 16"
  have n: "1 \<le> ?n" "?n \<le> 16" by simp_all
  have u: "unat (of_nat ?n :: byte) = ?n"
    using n(2) by (rule unat_small)
  have p: "pkcs7 m = m @ replicate ?n (of_nat ?n)" by (simp add: pkcs7_def Let_def)
  have ne: "replicate ?n (of_nat ?n :: byte) \<noteq> []" using n by simp
  have l: "last (pkcs7 m) = of_nat ?n" unfolding p using ne by simp
  show ?thesis
    unfolding unpad_def l u Let_def
    using n by (simp add: p)
qed

section \<open>The cipher\<close>

lemma concat_blocks: "length xs mod 16 = 0 \<Longrightarrow> concat (blocks xs) = xs"
proof (induction xs rule: blocks.induct)
  case (1 bytes)
  show ?case
  proof (cases "length bytes < 16")
    case True
    then have "bytes = []" using 1(2) by simp
    then show ?thesis by (simp add: blocks_short)
  next
    case False
    then have h: "16 \<le> length bytes" by simp
    have m: "length (drop 16 bytes) mod 16 = 0" using 1(2) h by (simp add: le_mod_geq)
    show ?thesis unfolding blocks_step[OF h] using 1(1)[OF False m] by simp
  qed
qed

lemma cipher_update_first:
  "cipher_update E (createCipheriv key iv) m =
     (concat (cbc_chain E key iv (blocks m)),
      \<lparr> cipher_key = key,
        cipher_chain = (if cbc_chain E key iv (blocks m) = [] then iv
                        else last (cbc_chain E key iv (blocks m))),
        cipher_buffer = drop (16 * (length m div 16)) m \<rparr>)"
  by (simp add: cipher_update_def createCipheriv_def Let_def length_cbc_chain length_blocks)

lemma stream_is_one_shot:
  "fst (cipher_update E (createCipheriv key iv) m) @
   cipher_final E (snd (cipher_update E (createCipheriv key iv) m)) =
   aes_256_cbc E key iv m"
proof -
  let ?cs = "cbc_chain E key iv (blocks m)"
  let ?buf = "drop (16 * (length m div 16)) m"
  have "aes_256_cbc E key iv m = concat (cbc_chain E key iv (blocks m @ [pkcs7 ?buf]))"
    by (simp only: aes_256_cbc_def blocks_pkcs7)
  also have "\<dots> = concat (?cs @ [E key (xor_bytes (if ?cs = [] then iv else last ?cs) (pkcs7 ?buf))])"
    by (simp only: cbc_chain_snoc)
  also have "\<dots> = concat ?cs @ E key (xor_bytes (if ?cs = [] then iv else last ?cs) (pkcs7 ?buf))"
    by simp
  finally show ?thesis
    unfolding cipher_update_first by (simp add: cipher_final_def)
qed

lemma encrypt_text:
  "encrypt lib iv encryptionKey d =
   toString_hex iv @ '':'' @
   toString_base64
     (aes_256_cbc (aes_block lib) (sha256 lib (utf8 encryptionKey)) iv (utf8_json lib (JSON_stringify d)))"
proof -
  let ?E = "aes_block lib"
  let ?key = "sha256 lib (utf8 encryptionKey)"
  let ?m = "utf8_json lib (JSON_stringify d)"
  let ?u = "cipher_update ?E (createCipheriv ?key iv) ?m"
  have "encrypt lib iv encryptionKey d =
        toString_hex iv @ '':'' @
        (fst (decoder_write [] (fst ?u)) @
         decoder_end (snd (decoder_write [] (fst ?u))) (cipher_final ?E (snd ?u)))"
    by (simp add: encrypt_def Let_def case_prod_unfold)
  also have "\<dots> = toString_hex iv @ '':'' @ toString_base64 (fst ?u @ cipher_final ?E (snd ?u))"
    by (simp only: decoder_stream)
  finally show ?thesis by (simp only: stream_is_one_shot)
qed

lemma ciphertext_blocks:
  assumes "\<forall>b. length b = 16 \<longrightarrow> length (E key b) = 16 \<and> D key (E key b) = b"
    and "length iv = 16"
  shows "length (aes_256_cbc E key iv m) mod 16 = 0"
    and "concat (cbc_unchain D key iv (blocks (aes_256_cbc E key iv m))) = pkcs7 m"
proof -
  let ?bs = "blocks (pkcs7 m)"
  have l: "\<forall>b \<in> set ?bs. length b = 16" using blocks_lengths by blast
  have rt: "cbc_unchain D key iv (cbc_chain E key iv ?bs) = ?bs"
    and cl: "\<forall>c \<in> set (cbc_chain E key iv ?bs). length c = 16"
    using cbc_round_trip[where E=E and D=D and key=key, OF assms(1) assms(2) l] by simp_all
  have "length (aes_256_cbc E key iv m) = 16 * length (cbc_chain E key iv ?bs)"
    unfolding aes_256_cbc_def using cl by (rule length_concat_blocks)
  then show "length (aes_256_cbc E key iv m) mod 16 = 0" by simp
  have "blocks (aes_256_cbc E key iv m) = cbc_chain E key iv ?bs"
    unfolding aes_256_cbc_def using cl by (rule blocks_concat)
  then show "concat (cbc_unchain D key iv (blocks (aes_256_cbc E key iv m))) = pkcs7 m"
    using rt concat_blocks[OF pkcs7_whole_blocks, of m] by simp
qed

text \<open>
  Claim C2.  With a sixteen-byte IV, the text \<open>encrypt\<close> returns is the hex form of the
  IV (32 hex digits), one colon, and the base64 form of the ciphertext; neither part
  contains a colon.  The ciphertext is AES-256 in CBC mode, under the SHA-256 digest of
  the secret itself as key and the given IV, of the UTF-8 bytes of the JSON text of the
  payload, padded with 1 to 16 bytes to whole blocks.  SHA-256, the AES block function
  and the JSON serialiser are Node's and stand as parameters; the IV is the value
  \<open>crypto.randomBytes(16)\<close> returned.
\<close>

theorem encrypt_output_format:
  assumes "length iv = 16"
  shows "encrypt lib iv encryptionKey d =
     toString_hex iv @ '':'' @
     toString_base64
       (aes_256_cbc (aes_block lib) (sha256 lib (utf8 encryptionKey)) iv
          (utf8_json lib (JSON_stringify d))) \<and>
   aes_256_cbc (aes_block lib) (sha256 lib (utf8 encryptionKey)) iv (utf8_json lib (JSON_stringify d)) =
     concat (cbc_chain (aes_block lib) (sha256 lib (utf8 encryptionKey)) iv
               (blocks (pkcs7 (utf8_json lib (JSON_stringify d))))) \<and>
   length (pkcs7 (utf8_json lib (JSON_stringify d))) mod 16 = 0 \<and>
   length (utf8_json lib (JSON_stringify d)) < length (pkcs7 (utf8_json lib (JSON_stringify d))) \<and>
   length (pkcs7 (utf8_json lib (JSON_stringify d))) \<le> length (utf8_json lib (JSON_stringify d)) + 16 \<and>
   length (toString_hex iv) = 32 \<and>
   set (toString_hex iv) \<subseteq> set hex_digits \<and>
   CHR '':'' \<notin> set (toString_hex iv) \<and>
   CHR '':'' \<notin> set (toString_base64
       (aes_256_cbc (aes_block lib) (sha256 lib (utf8 encryptionKey)) iv
          (utf8_json lib (JSON_stringify d))))"
proof -
  let ?m = "utf8_json lib (JSON_stringify d)"
  have "length ?m mod 16 < 16" by simp
  then have p: "length ?m < length (pkcs7 ?m)" "length (pkcs7 ?m) \<le> length ?m + 16"
    by (simp_all add: pkcs7_length)
  have h: "length (toString_hex iv) = 32" using assms by (simp add: toString_hex_length)
  show ?thesis
    using encrypt_text[of lib iv encryptionKey d] pkcs7_whole_blocks[of ?m] p h
      toString_hex_chars[of iv] toString_hex_no_colon[of iv] toString_base64_no_colon
    by (simp only: aes_256_cbc_def simp_thms)
qed

lemma scenario_ciphertext:
  "toString_hex (replicate 16 0) @ '':'' @
   toString_base64
     (aes_256_cbc (aes_block (crypto scenario_world)) (sha256 (crypto scenario_world) (utf8 ''secret''))
        (replicate 16 0) (utf8_json (crypto scenario_world) (JSON_stringify (JObj scenario_data)))) =
   ''00000000000000000000000000000000:dGhlIHNlcmlhbGlzZWQgYwYNAUUdERsIDWtudGJjJ2Q=''"
  by code_simp

theorem encrypt_output_format_witness:
  "length (replicate 16 (0::byte)) = 16 \<and>
   encrypt (crypto scenario_world) (replicate 16 0) ''secret'' (JObj scenario_data) =
     ''00000000000000000000000000000000:dGhlIHNlcmlhbGlzZWQgYwYNAUUdERsIDWtudGJjJ2Q=''"
proof -
  have l: "length (replicate 16 (0::byte)) = 16" by simp
  from encrypt_output_format[OF l, of "crypto scenario_world" "''secret''" "JObj scenario_data"]
  have "encrypt (crypto scenario_world) (replicate 16 0) ''secret'' (JObj scenario_data) =
     toString_hex (replicate 16 0) @ '':'' @
     toString_base64
       (aes_256_cbc (aes_block (crypto scenario_world)) (sha256 (crypto scenario_world) (utf8 ''secret''))
          (replicate 16 0) (utf8_json (crypto scenario_world) (JSON_stringify (JObj scenario_data))))"
    by (rule conjunct1)
  then show ?thesis using l by (simp only: scenario_ciphertext simp_thms)
qed

text \<open>
  Claim C3.  Whatever the payload and the secret, decrypting the text \<open>encrypt\<close>
  returns with the matching operation (same key derivation, IV taken from the hex text
  before the colon, CBC with the inverse block function, padding removed) gives back
  the bytes of the JSON text of the payload.  The block function and its inverse are
  parameters: all that is used of AES is that decrypting a block undoes encrypting it
  and that blocks keep their length.
\<close>

theorem decrypt_encrypt_round_trip:
  assumes "length iv = 16"
    and "\<forall>key b. length b = 16 \<longrightarrow>
           length (aes_block lib key b) = 16 \<and> D key (aes_block lib key b) = b"
  shows "matching_decrypt D lib encryptionKey (encrypt lib iv encryptionKey d) =
         Some (utf8_json lib (JSON_stringify d))"
proof -
  let ?E = "aes_block lib"
  let ?key = "sha256 lib (utf8 encryptionKey)"
  let ?m = "utf8_json lib (JSON_stringify d)"
  let ?ct = "aes_256_cbc ?E ?key iv ?m"
  have inv: "\<forall>b. length b = 16 \<longrightarrow> length (?E ?key b) = 16 \<and> D ?key (?E ?key b) = b"
    using assms(2) by simp
  have e: "encrypt lib iv encryptionKey d = toString_hex iv @ CHR '':'' # toString_base64 ?ct"
    using encrypt_text[of lib iv encryptionKey d] by simp
  have s: "split_colon (encrypt lib iv encryptionKey d) = Some (toString_hex iv, toString_base64 ?ct)"
    unfolding e by (rule split_colon_first[OF toString_hex_no_colon])
  have l: "length ?ct mod 16 = 0"
    using ciphertext_blocks(1)[where E="?E" and D=D and key="?key", OF inv assms(1)] .
  have c: "concat (cbc_unchain D ?key iv (blocks ?ct)) = pkcs7 ?m"
    using ciphertext_blocks(2)[where E="?E" and D=D and key="?key", OF inv assms(1)] .
  show ?thesis
    by (simp add: matching_decrypt_def s fromHex_toString_hex fromBase64_toString_base64 l c unpad_pkcs7)
qed

theorem decrypt_encrypt_round_trip_witness:
  "length (replicate 16 (0::byte)) = 16 \<and>
   matching_decrypt (\<lambda>key block. block) (crypto scenario_world) ''secret''
     (encrypt (crypto scenario_world) (replicate 16 0) ''secret'' (JObj scenario_data)) =
   Some (utf8 ''the serialised credential'')"
proof -
  have l: "length (replicate 16 (0::byte)) = 16" by simp
  have i: "\<forall>key b. length b = 16 \<longrightarrow>
           length (aes_block (crypto scenario_world) key b) = 16 \<and>
           (\<lambda>key block. block) key (aes_block (crypto scenario_world) key b) = b"
    by (simp add: scenario_world_def)
  have u: "utf8_json (crypto scenario_world) t = utf8 ''the serialised credential''" for t
    by (simp add: scenario_world_def)
  from decrypt_encrypt_round_trip[OF l i, of "''secret''" "JObj scenario_data"]
  show ?thesis using l by (simp only: u simp_thms)
qed

end
